theory Spec2Isabelle
  imports Main "HOL-Library.Sublist"
begin

section \<open>JavaScript values and JSON text\<close>

text \<open>
  The two utilities of the repository, \<^verbatim>\<open>src/utils/storage.ts\<close> (StorageManager) and
  \<^verbatim>\<open>src/utils/network.ts\<close> (NetworkManager), are embedded here.  Their data is untyped
  JavaScript data that travels through \<^verbatim>\<open>JSON.stringify\<close> and \<^verbatim>\<open>JSON.parse\<close>.

  \<^item> \<open>jsval\<close> is a JavaScript value.  Numbers are integers (\<^verbatim>\<open>Date.now()\<close>, minutes, counters);
    floating point, \<^verbatim>\<open>NaN\<close>, functions and class instances are outside the model.
    An object is the list of its own properties in insertion order, with distinct keys.
  \<^item> \<open>json\<close> is a JSON text, represented by its syntax tree: AsyncStorage keeps such texts.
\<close>

datatype jsval =
    Undefined
  | Null
  | Bool bool
  | Num int
  | Str string
  | Arr "jsval list"
  | Obj "(string \<times> jsval) list"

datatype json =
    JNull
  | JBool bool
  | JNum int
  | JStr string
  | JArr "json list"
  | JObj "(string \<times> json) list"

text \<open>
  \<^verbatim>\<open>JSON.stringify\<close>: inside an array \<^verbatim>\<open>undefined\<close> is written as \<^verbatim>\<open>null\<close>, a property whose
  value is \<^verbatim>\<open>undefined\<close> is left out, and \<^verbatim>\<open>JSON.stringify(undefined)\<close> is not a text at all.
\<close>

fun serialize :: "jsval \<Rightarrow> json" where
  "serialize Undefined = JNull"
| "serialize Null = JNull"
| "serialize (Bool b) = JBool b"
| "serialize (Num n) = JNum n"
| "serialize (Str s) = JStr s"
| "serialize (Arr xs) = JArr (map serialize xs)"
| "serialize (Obj kvs) =
     JObj (map (\<lambda>(k, v). (k, serialize v)) (filter (\<lambda>(k, v). v \<noteq> Undefined) kvs))"

definition JSON_stringify :: "jsval \<Rightarrow> json option" where
  "JSON_stringify v = (if v = Undefined then None else Some (serialize v))"

fun JSON_parse :: "json \<Rightarrow> jsval" where
  "JSON_parse JNull = Null"
| "JSON_parse (JBool b) = Bool b"
| "JSON_parse (JNum n) = Num n"
| "JSON_parse (JStr s) = Str s"
| "JSON_parse (JArr xs) = Arr (map JSON_parse xs)"
| "JSON_parse (JObj kvs) = Obj (map (\<lambda>(k, v). (k, JSON_parse v)) kvs)"

text \<open>A value is JSON-serializable when \<^verbatim>\<open>undefined\<close> occurs nowhere in it.\<close>

fun serializable :: "jsval \<Rightarrow> bool" where
  "serializable Undefined = False"
| "serializable (Arr xs) = list_all serializable xs"
| "serializable (Obj kvs) = list_all (\<lambda>(k, v). serializable v) kvs"
| "serializable _ = True"

text \<open>Truthiness, \<^verbatim>\<open>a || b\<close>, and reading a property \<^verbatim>\<open>o.k\<close> of a value that is neither
  \<^verbatim>\<open>null\<close> nor \<^verbatim>\<open>undefined\<close> (a missing property reads as \<^verbatim>\<open>undefined\<close>).\<close>

fun truthy :: "jsval \<Rightarrow> bool" where
  "truthy Undefined = False"
| "truthy Null = False"
| "truthy (Bool b) = b"
| "truthy (Num n) = (n \<noteq> 0)"
| "truthy (Str s) = (s \<noteq> [])"
| "truthy (Arr xs) = True"
| "truthy (Obj kvs) = True"

definition js_or :: "jsval \<Rightarrow> jsval \<Rightarrow> jsval" where
  "js_or a b = (if truthy a then a else b)"

fun js_prop :: "jsval \<Rightarrow> string \<Rightarrow> jsval" where
  "js_prop (Obj kvs) k = (case map_of kvs k of Some v \<Rightarrow> v | None \<Rightarrow> Undefined)"
| "js_prop v k = Undefined"

text \<open>
  \<^verbatim>\<open>n > x\<close> for a number \<open>n\<close>.  \<^verbatim>\<open>null\<close> and booleans convert to 0 and 1, \<^verbatim>\<open>undefined\<close> to
  \<^verbatim>\<open>NaN\<close> (every comparison false).  The conversion of strings, arrays and objects to numbers is
  not modelled (taken as \<^verbatim>\<open>NaN\<close>): the only use is on \<^verbatim>\<open>CacheItem.expiresAt\<close>, declared a number.
\<close>

fun js_gt :: "int \<Rightarrow> jsval \<Rightarrow> bool" where
  "js_gt n (Num m) = (n > m)"
| "js_gt n Null = (n > 0)"
| "js_gt n (Bool b) = (n > (if b then 1 else 0))"
| "js_gt n v = False"

section \<open>StorageManager (src/utils/storage.ts)\<close>

text \<open>
  AsyncStorage is a reliable key-value store of texts.  An operation of the source that can
  throw returns \<open>error + _\<close>: \<open>Inl\<close> is the thrown \<^verbatim>\<open>Error\<close> with its message.  The one modelled
  failure of \<^verbatim>\<open>AsyncStorage.setItem\<close> is a value that is not a text (\<^verbatim>\<open>undefined\<close>).
\<close>

datatype error = Error string

type_synonym AsyncStorage = "string \<rightharpoonup> json"

definition setItem :: "string \<Rightarrow> jsval \<Rightarrow> AsyncStorage \<Rightarrow> error + AsyncStorage" where
  "setItem key v s =
     (case JSON_stringify v of
        None \<Rightarrow> Inl (Error ''[AsyncStorage] Passing null/undefined as value is not supported.'')
      | Some jsonValue \<Rightarrow> Inr (s(key \<mapsto> jsonValue)))"

definition getItem :: "string \<Rightarrow> AsyncStorage \<Rightarrow> jsval" where
  "getItem key s = (case s key of Some jsonValue \<Rightarrow> JSON_parse jsonValue | None \<Rightarrow> Null)"

definition removeItem :: "string \<Rightarrow> AsyncStorage \<Rightarrow> AsyncStorage" where
  "removeItem key s = s(key := None)"

definition clear :: "AsyncStorage \<Rightarrow> AsyncStorage" where
  "clear s = Map.empty"

text \<open>The store of a fresh installation.\<close>

definition empty_store :: AsyncStorage where
  "empty_store = Map.empty"

text \<open>A caller that catches the error of a write and only logs it keeps the old store.\<close>

definition or_unchanged :: "error + AsyncStorage \<Rightarrow> AsyncStorage \<Rightarrow> AsyncStorage" where
  "or_unchanged r s = (case r of Inl e \<Rightarrow> s | Inr s' \<Rightarrow> s')"

text \<open>Storage operations that leave a given key alone, for the round-trip property.\<close>

datatype store_op = SetItem string jsval | RemoveItem string

fun op_key :: "store_op \<Rightarrow> string" where
  "op_key (SetItem k v) = k"
| "op_key (RemoveItem k) = k"

fun run_op :: "store_op \<Rightarrow> AsyncStorage \<Rightarrow> AsyncStorage" where
  "run_op (SetItem k v) s = or_unchanged (setItem k v s) s"
| "run_op (RemoveItem k) s = removeItem k s"

definition run_ops :: "store_op list \<Rightarrow> AsyncStorage \<Rightarrow> AsyncStorage" where
  "run_ops ops s = fold run_op ops s"

subsection \<open>Cache entries with expiry\<close>

text \<open>
  \<^verbatim>\<open>setCache(key, data, expirationMinutes?)\<close>.  The source reads the clock twice
  (\<open>now1\<close> for \<^verbatim>\<open>timestamp\<close>, \<open>now2\<close> for \<^verbatim>\<open>expiresAt\<close>); an omitted argument is \<open>None\<close>.
  The test \<^verbatim>\<open>expirationMinutes ? ... : undefined\<close> is a truthiness test.
\<close>

definition setCache ::
  "string \<Rightarrow> jsval \<Rightarrow> int option \<Rightarrow> int \<Rightarrow> int \<Rightarrow> AsyncStorage \<Rightarrow> error + AsyncStorage" where
  "setCache key data' expirationMinutes now1 now2 s =
     setItem (''cache_'' @ key)
       (Obj [(''data'', data'),
             (''timestamp'', Num now1),
             (''expiresAt'',
                (case expirationMinutes of
                   None \<Rightarrow> Undefined
                 | Some m \<Rightarrow> if m \<noteq> 0 then Num (now2 + m * 60 * 1000) else Undefined))]) s"

text \<open>\<^verbatim>\<open>getCache(key)\<close> at clock reading \<open>now\<close>: the value returned and the store afterwards.\<close>

definition getCache :: "string \<Rightarrow> int \<Rightarrow> AsyncStorage \<Rightarrow> jsval \<times> AsyncStorage" where
  "getCache key now s =
     (let cacheItem = getItem (''cache_'' @ key) s in
      if \<not> truthy cacheItem then (Null, s)
      else if truthy (js_prop cacheItem ''expiresAt'') \<and> js_gt now (js_prop cacheItem ''expiresAt'')
      then (Null, removeItem (''cache_'' @ key) s)
      else (js_prop cacheItem ''data'', s))"

subsection \<open>The persisted offline queue\<close>

text \<open>
  Identifiers are built as \<^verbatim>\<open>`${Date.now()}_${Math.random()}`\<close>.  The random number is
  represented by its decimal text \<open>rnd\<close>, the clock reading is printed in decimal.
\<close>

fun string_of_nat :: "nat \<Rightarrow> string" where
  "string_of_nat n =
     (if n < 10 then [''0123456789'' ! n]
      else string_of_nat (n div 10) @ [''0123456789'' ! (n mod 10)])"

definition string_of_int :: "int \<Rightarrow> string" where
  "string_of_int i = (if i < 0 then CHR ''-'' # string_of_nat (nat (- i)) else string_of_nat (nat i))"

definition make_id :: "int \<Rightarrow> string \<Rightarrow> string" where
  "make_id now rnd = string_of_int now @ ''_'' @ rnd"

text \<open>What one call of an \<^verbatim>\<open>addToOfflineQueue\<close> reads from its environment, in the order of
  the source: the clock for the id, the random number, the clock for the timestamp.\<close>

record readings =
  now_id :: int
  random :: string
  now_ts :: int

definition getOfflineQueue :: "AsyncStorage \<Rightarrow> jsval" where
  "getOfflineQueue s = js_or (getItem ''offline_queue'' s) (Arr [])"

text \<open>
  \<^verbatim>\<open>StorageManager.addToOfflineQueue\<close> and \<^verbatim>\<open>removeFromOfflineQueue\<close> wrap their body in
  \<^verbatim>\<open>try/catch\<close> and only log: when the stored value is not an array (\<^verbatim>\<open>queue.push\<close> or
  \<^verbatim>\<open>queue.filter\<close> is not a function), or an element is \<^verbatim>\<open>null\<close> (\<^verbatim>\<open>item.id\<close> throws), the
  store stays as it was.
\<close>

definition StorageManager_addToOfflineQueue ::
  "string \<Rightarrow> jsval \<Rightarrow> readings \<Rightarrow> AsyncStorage \<Rightarrow> AsyncStorage" where
  "StorageManager_addToOfflineQueue action' data' r s =
     (case js_or (getItem ''offline_queue'' s) (Arr []) of
        Arr queue \<Rightarrow>
          or_unchanged
            (setItem ''offline_queue''
               (Arr (queue @
                  [Obj [(''id'', Str (make_id (now_id r) (random r))),
                        (''action'', Str action'),
                        (''data'', data'),
                        (''timestamp'', Num (now_ts r))]])) s) s
      | _ \<Rightarrow> s)"

definition removeFromOfflineQueue :: "string \<Rightarrow> AsyncStorage \<Rightarrow> AsyncStorage" where
  "removeFromOfflineQueue itemId s =
     (case js_or (getItem ''offline_queue'' s) (Arr []) of
        Arr queue \<Rightarrow>
          if Null \<in> set queue then s
          else or_unchanged
            (setItem ''offline_queue''
               (Arr (filter (\<lambda>item. js_prop item ''id'' \<noteq> Str itemId) queue)) s) s
      | _ \<Rightarrow> s)"

definition clearOfflineQueue :: "AsyncStorage \<Rightarrow> AsyncStorage" where
  "clearOfflineQueue s = removeItem ''offline_queue'' s"

subsection \<open>Recent searches\<close>

datatype search_type = posts | marketplace | users

fun type_name :: "search_type \<Rightarrow> string" where
  "type_name posts = ''posts''"
| "type_name marketplace = ''marketplace''"
| "type_name users = ''users''"

text \<open>\<^verbatim>\<open>addRecentSearch\<close> catches and logs every error: a stored value without \<^verbatim>\<open>filter\<close>
  (not an array) leaves the store as it was.\<close>

definition addRecentSearch :: "string \<Rightarrow> search_type \<Rightarrow> AsyncStorage \<Rightarrow> AsyncStorage" where
  "addRecentSearch query ty s =
     (let recentKey = ''recent_'' @ type_name ty in
      case js_or (getItem recentKey s) (Arr []) of
        Arr recent \<Rightarrow>
          (let filtered = filter (\<lambda>item. item \<noteq> Str query) recent;
               updated = take 10 (Str query # filtered)
           in or_unchanged (setItem recentKey (Arr updated) s) s)
      | _ \<Rightarrow> s)"

definition getRecentSearches :: "search_type \<Rightarrow> AsyncStorage \<Rightarrow> jsval" where
  "getRecentSearches ty s = js_or (getItem (''recent_'' @ type_name ty) s) (Arr [])"

section \<open>NetworkManager (src/utils/network.ts)\<close>

text \<open>
  The methods are \<^verbatim>\<open>async\<close>.  The network listener starts \<^verbatim>\<open>processOfflineQueue\<close> and does
  not await it, and a pass is suspended at every \<^verbatim>\<open>await this.executeOfflineAction(item)\<close>:
  other events are handled in between, and passes overlap.  This is modelled in two layers.

  \<^item> \<open>world\<close> and the functions on it describe the manager while no pass is in flight:
    the queue is the list of its items, and \<open>processOfflineQueue\<close> is what one pass does
    from its start to its end when nothing happens in between.
  \<^item> \<open>system\<close> (further down) is the manager with its suspended passes, a heap of item
    objects and a heap of arrays; the listener \<open>onNetworkChange\<close> only starts a pass there.

  The calls of StorageManager are taken as atomic steps.
\<close>

record NetworkState =
  isConnected :: bool
  isInternetReachable :: bool
  type :: string
  isWifiEnabled :: "bool option"

text \<open>The state NetInfo hands to the listener: both flags may be \<^verbatim>\<open>null\<close>.\<close>

record NetInfoState =
  ni_isConnected :: "bool option"
  ni_isInternetReachable :: "bool option"
  ni_type :: string
  ni_isWifiEnabled :: "bool option"

text \<open>
  An element of the in-memory queue.  \<^verbatim>\<open>retryCount\<close> is a counter: 0 on an item made by
  \<^verbatim>\<open>addToOfflineQueue\<close>, absent (\<open>None\<close>) on an item loaded from the store.
\<close>

record queue_item =
  item_id :: string
  action :: string
  data :: jsval
  timestamp :: int
  retryCount :: "nat option"

text \<open>
  The fields of the singleton (\<open>networkState\<close>, \<open>listeners\<close>, \<open>offlineQueue\<close>) together with
  what its methods act on: the store, and three logs of effects, oldest first:
  \<open>executed\<close>, the items handed to \<^verbatim>\<open>executeOfflineAction\<close>; \<open>alerts\<close>, the count shown by each
  'Sync Complete' alert; \<open>notified\<close>, the listener calls.  Listeners are callbacks that return
  normally, identified by a number.
\<close>

record world =
  networkState :: NetworkState
  listeners :: "nat list"
  offlineQueue :: "queue_item list"
  storage :: AsyncStorage
  executed :: "queue_item list"
  alerts :: "nat list"
  notified :: "(nat \<times> NetworkState) list"

definition new_NetworkManager :: "AsyncStorage \<Rightarrow> world" where
  "new_NetworkManager s =
     \<lparr>networkState =
        \<lparr>isConnected = False, isInternetReachable = False, type = ''unknown'',
         isWifiEnabled = None\<rparr>,
      listeners = [], offlineQueue = [], storage = s, executed = [], alerts = [],
      notified = []\<rparr>"

text \<open>
  \<^verbatim>\<open>this.offlineQueue = await StorageManager.getOfflineQueue()\<close>.  The stored array is read as
  items of the shape \<^verbatim>\<open>StorageManager.addToOfflineQueue\<close> writes; a stored value of any other
  shape is outside the model (\<open>None\<close>).
\<close>

fun as_queue_item :: "jsval \<Rightarrow> queue_item option" where
  "as_queue_item (Obj kvs) =
     (case (map_of kvs ''id'', map_of kvs ''action'', map_of kvs ''timestamp'') of
        (Some (Str i), Some (Str a), Some (Num t)) \<Rightarrow>
          (case map_of kvs ''retryCount'' of
             None \<Rightarrow>
               Some \<lparr>item_id = i, action = a, data = js_prop (Obj kvs) ''data'', timestamp = t,
                     retryCount = None\<rparr>
           | Some (Num n) \<Rightarrow>
               if 0 \<le> n
               then Some \<lparr>item_id = i, action = a, data = js_prop (Obj kvs) ''data'',
                          timestamp = t, retryCount = Some (nat n)\<rparr>
               else None
           | Some _ \<Rightarrow> None)
      | _ \<Rightarrow> None)"
| "as_queue_item v = None"

definition initialize :: "world \<Rightarrow> world option" where
  "initialize w =
     (case getOfflineQueue (storage w) of
        Arr xs \<Rightarrow>
          (case those (map as_queue_item xs) of
             Some q \<Rightarrow> Some (w\<lparr>offlineQueue := q\<rparr>)
           | None \<Rightarrow> None)
      | _ \<Rightarrow> None)"

definition getCurrentState :: "world \<Rightarrow> NetworkState" where
  "getCurrentState w = networkState w"

definition isOnline :: "world \<Rightarrow> bool" where
  "isOnline w = (isConnected (networkState w) \<and> isInternetReachable (networkState w))"

definition isOffline :: "world \<Rightarrow> bool" where
  "isOffline w = (\<not> isOnline w)"

text \<open>\<^verbatim>\<open>NetworkManager.addToOfflineQueue\<close>: \<open>r\<close> is read for the in-memory item, then
  \<^verbatim>\<open>StorageManager.addToOfflineQueue\<close> reads \<open>r'\<close> for the persisted one.\<close>

definition NetworkManager_addToOfflineQueue ::
  "string \<Rightarrow> jsval \<Rightarrow> readings \<Rightarrow> readings \<Rightarrow> world \<Rightarrow> world" where
  "NetworkManager_addToOfflineQueue action' data' r r' w =
     (let queueItem =
            \<lparr>item_id = make_id (now_id r) (random r), action = action', data = data',
             timestamp = now_ts r, retryCount = Some 0\<rparr>
      in w\<lparr>offlineQueue := offlineQueue w @ [queueItem],
           storage := StorageManager_addToOfflineQueue action' data' r' (storage w)\<rparr>)"

text \<open>
  \<^verbatim>\<open>executeOfflineAction\<close> is a stub in the source: it logs the action and returns.  Its
  outcome is left open here: \<open>succeeds n\<close> tells whether the call number \<open>n\<close> (counted from 0
  over the life of the manager) returns, or throws.  The stub as written is \<open>\<lambda>n. True\<close>.

  \<open>or_zero\<close> is \<^verbatim>\<open>item.retryCount || 0\<close>.  \<open>process_items\<close> is the \<^verbatim>\<open>for ... of\<close> loop: it returns
  the items as the loop leaves them (the loop updates \<^verbatim>\<open>retryCount\<close> in place), the list
  \<^verbatim>\<open>processedItems\<close> and the log of executions.
\<close>

definition or_zero :: "nat option \<Rightarrow> nat" where
  "or_zero c = (case c of None \<Rightarrow> 0 | Some n \<Rightarrow> if n \<noteq> 0 then n else 0)"

fun process_items ::
  "(nat \<Rightarrow> bool) \<Rightarrow> queue_item list \<Rightarrow> string list \<Rightarrow> queue_item list \<Rightarrow>
     queue_item list \<times> string list \<times> queue_item list" where
  "process_items succeeds [] processedItems log = ([], processedItems, log)"
| "process_items succeeds (item # rest) processedItems log =
     (if succeeds (length log)
      then
        (case process_items succeeds rest (processedItems @ [item_id item]) (log @ [item]) of
           (rest', processed', log') \<Rightarrow> (item # rest', processed', log'))
      else
        (let item' = item\<lparr>retryCount := Some (or_zero (retryCount item) + 1)\<rparr>;
             processedItems' =
               (if or_zero (retryCount item') \<ge> 3 then processedItems @ [item_id item']
                else processedItems)
         in case process_items succeeds rest processedItems' (log @ [item]) of
              (rest', processed', log') \<Rightarrow> (item' # rest', processed', log')))"

definition processOfflineQueue :: "(nat \<Rightarrow> bool) \<Rightarrow> world \<Rightarrow> world" where
  "processOfflineQueue succeeds w =
     (if offlineQueue w = [] then w
      else
        (case process_items succeeds (offlineQueue w) [] (executed w) of
           (items, processedItems, log) \<Rightarrow>
             w\<lparr>offlineQueue := filter (\<lambda>item. item_id item \<notin> set processedItems) items,
               storage := fold removeFromOfflineQueue processedItems (storage w),
               executed := log,
               alerts := (if length processedItems > 0 then alerts w @ [length processedItems]
                          else alerts w)\<rparr>))"

text \<open>The state the listener builds from a report: \<^verbatim>\<open>state.isConnected || false\<close> turns
  \<^verbatim>\<open>null\<close> into \<^verbatim>\<open>false\<close>.\<close>

definition or_false :: "bool option \<Rightarrow> bool" where
  "or_false b = (case b of Some True \<Rightarrow> True | _ \<Rightarrow> False)"

definition newNetworkState :: "NetInfoState \<Rightarrow> NetworkState" where
  "newNetworkState state =
     \<lparr>isConnected = or_false (ni_isConnected state),
      isInternetReachable = or_false (ni_isInternetReachable state),
      type = ni_type state,
      isWifiEnabled = ni_isWifiEnabled state\<rparr>"

subsection \<open>The manager with suspended passes\<close>

text \<open>
  Item objects live in the heap \<open>objects\<close> and arrays in the heap \<open>arrays\<close> (a reference is
  an index); \<open>m_offlineQueue\<close> is the array \<^verbatim>\<open>this.offlineQueue\<close> points to.  A suspended pass
  remembers the array its \<^verbatim>\<open>for ... of\<close> loop iterates, the position of the item whose
  execution it awaits, and its \<^verbatim>\<open>processedItems\<close>.  The other fields are those of \<open>world\<close>.
  In the states reached from \<open>system_of\<close> every reference is allocated, so no read is out
  of range.
\<close>

record pass =
  iterated :: nat
  position :: nat
  processed :: "string list"

record system =
  m_networkState :: NetworkState
  m_listeners :: "nat list"
  objects :: "queue_item list"
  arrays :: "nat list list"
  m_offlineQueue :: nat
  passes :: "pass list"
  m_storage :: AsyncStorage
  m_executed :: "queue_item list"
  m_alerts :: "nat list"
  m_notified :: "(nat \<times> NetworkState) list"

text \<open>The manager as the first layer sees it, and a manager with no pass in flight as a
  system: its items are the objects 0, 1, ... of one array.\<close>

definition view :: "system \<Rightarrow> world" where
  "view sys =
     \<lparr>networkState = m_networkState sys,
      listeners = m_listeners sys,
      offlineQueue = map (nth (objects sys)) (arrays sys ! m_offlineQueue sys),
      storage = m_storage sys,
      executed = m_executed sys,
      alerts = m_alerts sys,
      notified = m_notified sys\<rparr>"

definition system_of :: "world \<Rightarrow> system" where
  "system_of w =
     \<lparr>m_networkState = networkState w,
      m_listeners = listeners w,
      objects = offlineQueue w,
      arrays = [[0 ..< length (offlineQueue w)]],
      m_offlineQueue = 0,
      passes = [],
      m_storage = storage w,
      m_executed = executed w,
      m_alerts = alerts w,
      m_notified = notified w\<rparr>"

text \<open>The current array holds allocated objects, each once.\<close>

definition well_formed :: "system \<Rightarrow> bool" where
  "well_formed sys =
     (m_offlineQueue sys < length (arrays sys) \<and>
      list_all (\<lambda>r. r < length (objects sys)) (arrays sys ! m_offlineQueue sys) \<and>
      distinct (arrays sys ! m_offlineQueue sys))"

text \<open>\<^verbatim>\<open>NetworkManager.addToOfflineQueue\<close>: a new object, pushed onto the current array in
  place (a pass that iterates this array will reach it).\<close>

definition push_to_offlineQueue ::
  "string \<Rightarrow> jsval \<Rightarrow> readings \<Rightarrow> readings \<Rightarrow> system \<Rightarrow> system" where
  "push_to_offlineQueue action' data' r r' sys =
     (let queueItem =
            \<lparr>item_id = make_id (now_id r) (random r), action = action', data = data',
             timestamp = now_ts r, retryCount = Some 0\<rparr>
      in sys\<lparr>objects := objects sys @ [queueItem],
             arrays := (arrays sys)
               [m_offlineQueue sys := arrays sys ! m_offlineQueue sys @ [length (objects sys)]],
             m_storage := StorageManager_addToOfflineQueue action' data' r' (m_storage sys)\<rparr>)"

text \<open>
  \<^verbatim>\<open>processOfflineQueue\<close> from its call to its first \<^verbatim>\<open>await\<close>: nothing on an empty queue;
  otherwise \<^verbatim>\<open>executeOfflineAction\<close> is called on the first item and the pass is suspended.
\<close>

definition start_processOfflineQueue :: "system \<Rightarrow> system" where
  "start_processOfflineQueue sys =
     (if arrays sys ! m_offlineQueue sys = [] then sys
      else sys\<lparr>m_executed :=
                  m_executed sys @ [objects sys ! (arrays sys ! m_offlineQueue sys ! 0)],
                passes := passes sys @
                  [\<lparr>iterated = m_offlineQueue sys, position = 0, processed = []\<rparr>]\<rparr>)"

text \<open>
  The suspended pass number \<open>p\<close> goes on when the call it awaits returns (\<open>ok\<close>) or throws.
  It pushes the identifier, or updates \<^verbatim>\<open>retryCount\<close> on the object and pushes the identifier
  at 3.  Then the loop reads the length of its array: with a next item, that item is executed
  and the pass is suspended again; at the end \<^verbatim>\<open>this.offlineQueue\<close> becomes a new array, the
  current one filtered, the store is updated, the alert shown, and the pass is over.
\<close>

definition resume_processOfflineQueue :: "nat \<Rightarrow> bool \<Rightarrow> system \<Rightarrow> system" where
  "resume_processOfflineQueue p ok sys =
     (if p < length (passes sys) then
        (let pa = passes sys ! p;
             arr = arrays sys ! iterated pa;
             r = arr ! position pa;
             item = objects sys ! r;
             objects' =
               (if ok then objects sys
                else (objects sys)[r := item\<lparr>retryCount := Some (or_zero (retryCount item) + 1)\<rparr>]);
             processedItems =
               (if ok then processed pa @ [item_id item]
                else if or_zero (retryCount (objects' ! r)) \<ge> 3 then processed pa @ [item_id item]
                else processed pa)
         in if position pa + 1 < length arr
            then sys\<lparr>objects := objects',
                      m_executed := m_executed sys @ [objects' ! (arr ! (position pa + 1))],
                      passes := (passes sys)
                        [p := pa\<lparr>position := position pa + 1, processed := processedItems\<rparr>]\<rparr>
            else sys\<lparr>objects := objects',
                      arrays := arrays sys @
                        [filter (\<lambda>r. item_id (objects' ! r) \<notin> set processedItems)
                           (arrays sys ! m_offlineQueue sys)],
                      m_offlineQueue := length (arrays sys),
                      passes := take p (passes sys) @ drop (Suc p) (passes sys),
                      m_storage := fold removeFromOfflineQueue processedItems (m_storage sys),
                      m_alerts :=
                        (if length processedItems > 0
                         then m_alerts sys @ [length processedItems] else m_alerts sys)\<rparr>)
      else sys)"

text \<open>The listener registered with \<^verbatim>\<open>NetInfo.addEventListener\<close> in \<^verbatim>\<open>initialize\<close>: it stores
  the new state, notifies, and on the way from not connected to connected starts a pass,
  which it does not await.\<close>

definition onNetworkChange :: "NetInfoState \<Rightarrow> system \<Rightarrow> system" where
  "onNetworkChange state sys =
     (let wasOffline = \<not> isConnected (m_networkState sys);
          isNowOnline = isConnected (newNetworkState state);
          sys' = sys\<lparr>m_networkState := newNetworkState state,
                     m_notified := m_notified sys @
                       map (\<lambda>l. (l, newNetworkState state)) (m_listeners sys)\<rparr>
      in if wasOffline \<and> isNowOnline then start_processOfflineQueue sys' else sys')"

text \<open>What can happen to the manager: NetInfo reports a state, an action is enqueued, the
  call awaited by a suspended pass returns or throws.\<close>

datatype occurrence =
    Reported NetInfoState
  | Enqueued string jsval readings readings
  | Settled nat bool

fun occur :: "occurrence \<Rightarrow> system \<Rightarrow> system" where
  "occur (Reported state) sys = onNetworkChange state sys"
| "occur (Enqueued action' data' r r') sys = push_to_offlineQueue action' data' r r' sys"
| "occur (Settled p ok) sys = resume_processOfflineQueue p ok sys"

definition occur_all :: "occurrence list \<Rightarrow> system \<Rightarrow> system" where
  "occur_all os sys = fold occur os sys"

fun is_report :: "occurrence \<Rightarrow> bool" where
  "is_report (Reported state) = True"
| "is_report (Enqueued action' data' r r') = False"
| "is_report (Settled p ok) = False"

text \<open>
  A pass that runs alone: after the report nothing happens but the calls of this pass
  settling, \<open>succeeds n\<close> telling whether call number \<open>n\<close> returns.  \<open>settle\<close> does that for
  the given number of calls; a pass over an array of \<open>n\<close> items is over after \<open>n\<close> of them.
  \<open>onNetworkChange_settled\<close> is the same seen on a manager with no pass in flight.
\<close>

fun settle :: "(nat \<Rightarrow> bool) \<Rightarrow> nat \<Rightarrow> system \<Rightarrow> system" where
  "settle succeeds 0 sys = sys"
| "settle succeeds (Suc n) sys =
     settle succeeds n
       (resume_processOfflineQueue 0 (succeeds (length (m_executed sys) - 1)) sys)"

definition replay_alone :: "(nat \<Rightarrow> bool) \<Rightarrow> NetInfoState \<Rightarrow> system \<Rightarrow> system" where
  "replay_alone succeeds state sys =
     settle succeeds (length (arrays sys ! m_offlineQueue sys)) (onNetworkChange state sys)"

definition onNetworkChange_settled ::
  "(nat \<Rightarrow> bool) \<Rightarrow> NetInfoState \<Rightarrow> world \<Rightarrow> world" where
  "onNetworkChange_settled succeeds state w = view (replay_alone succeeds state (system_of w))"

subsection \<open>Passes and sessions\<close>

text \<open>
  What one pass does to one item, by the number \<open>n\<close> of its call of
  \<^verbatim>\<open>executeOfflineAction\<close>: \<open>bump\<close> is the update of the \<^verbatim>\<open>catch\<close> block, and an item is
  \<open>kept\<close> when its call throws and its new \<^verbatim>\<open>retryCount\<close> is still below 3.
\<close>

definition bump :: "queue_item \<Rightarrow> queue_item" where
  "bump item = item\<lparr>retryCount := Some (or_zero (retryCount item) + 1)\<rparr>"

definition kept :: "(nat \<Rightarrow> bool) \<Rightarrow> nat \<times> queue_item \<Rightarrow> bool" where
  "kept succeeds e = (\<not> succeeds (fst e) \<and> or_zero (retryCount (snd e)) + 1 < 3)"

text \<open>How often the action with identifier \<open>i\<close> has been executed so far.\<close>

definition executions :: "string \<Rightarrow> world \<Rightarrow> nat" where
  "executions i w = length (filter (\<lambda>item. item_id item = i) (executed w))"

text \<open>
  A session without overlapping passes: network changes reported by NetInfo and calls of
  \<^verbatim>\<open>addToOfflineQueue\<close>, in any order, where every pass started by a report is over before
  the next event.  \<open>run\<close> is such a session on a manager with no pass in flight, \<open>run_alone\<close>
  the same on the system.  \<open>fresh_ids\<close> says that every identifier drawn by
  \<^verbatim>\<open>addToOfflineQueue\<close> during the session is new: no queued and no executed item has it.
\<close>

datatype event =
    NetworkChange NetInfoState
  | Enqueue string jsval readings readings

fun step :: "(nat \<Rightarrow> bool) \<Rightarrow> event \<Rightarrow> world \<Rightarrow> world" where
  "step succeeds (NetworkChange state) w = onNetworkChange_settled succeeds state w"
| "step succeeds (Enqueue action' data' r r') w =
     NetworkManager_addToOfflineQueue action' data' r r' w"

fun run :: "(nat \<Rightarrow> bool) \<Rightarrow> event list \<Rightarrow> world \<Rightarrow> world" where
  "run succeeds [] w = w"
| "run succeeds (e # es) w = run succeeds es (step succeeds e w)"






text \<open>
  A restart of the app: a new manager over the same store (the logs of effects go on), whose
  \<^verbatim>\<open>initialize\<close> loads the persisted queue.  \<open>session\<close> is a restart followed by events.
\<close>

definition restart :: "world \<Rightarrow> world option" where
  "restart w =
     initialize
       ((new_NetworkManager (storage w))
          \<lparr>executed := executed w, alerts := alerts w, notified := notified w\<rparr>)"

definition session :: "(nat \<Rightarrow> bool) \<Rightarrow> event list \<Rightarrow> world \<Rightarrow> world option" where
  "session succeeds es w = map_option (run succeeds es) (restart w)"

text \<open>Outcomes of \<^verbatim>\<open>executeOfflineAction\<close>: the stub as written, which always returns;
  an action that throws on every call; and one that returns on call number \<open>m\<close> only.\<close>

definition always_returns :: "nat \<Rightarrow> bool" where
  "always_returns n = True"

definition always_throws :: "nat \<Rightarrow> bool" where
  "always_throws n = False"

definition returns_only_at :: "nat \<Rightarrow> nat \<Rightarrow> bool" where
  "returns_only_at m n = (n = m)"

text \<open>The two network reports used in examples.\<close>

definition connected :: NetInfoState where
  "connected =
     \<lparr>ni_isConnected = Some True, ni_isInternetReachable = Some True, ni_type = ''wifi'',
      ni_isWifiEnabled = Some True\<rparr>"

definition disconnected :: NetInfoState where
  "disconnected =
     \<lparr>ni_isConnected = Some False, ni_isInternetReachable = Some False, ni_type = ''none'',
      ni_isWifiEnabled = None\<rparr>"

subsection \<open>The request wrapper\<close>

text \<open>
  \<^verbatim>\<open>makeRequest(requestFn, fallbackData?, cacheKey?)\<close>.  \<open>requestFn\<close> is what the request
  does when it is called: it returns a value (\<open>Inr\<close>) or throws (\<open>Inl\<close>).  An omitted
  \<open>fallbackData\<close> is \<^verbatim>\<open>undefined\<close>, an omitted \<open>cacheKey\<close> is \<open>None\<close>.  The result records what the
  call returns or throws, the store afterwards, and how often \<open>requestFn\<close> was called.
\<close>

record outcome =
  returned :: "error + jsval"
  store_after :: AsyncStorage
  request_calls :: nat

definition key_given :: "string option \<Rightarrow> bool" where
  "key_given cacheKey = (case cacheKey of None \<Rightarrow> False | Some k \<Rightarrow> k \<noteq> [])"

text \<open>\<^verbatim>\<open>if (cacheKey) { const cachedData = await getCache(cacheKey); ... }\<close>: the value
  looked up (\<^verbatim>\<open>undefined\<close> when no lookup is made) and the store afterwards.\<close>

definition cached_lookup :: "string option \<Rightarrow> int \<Rightarrow> AsyncStorage \<Rightarrow> jsval \<times> AsyncStorage" where
  "cached_lookup cacheKey now s =
     (case cacheKey of
        None \<Rightarrow> (Undefined, s)
      | Some k \<Rightarrow> if k \<noteq> [] then getCache k now s else (Undefined, s))"

text \<open>The \<^verbatim>\<open>catch\<close> block of the online path.\<close>

definition request_failed :: "error \<Rightarrow> string option \<Rightarrow> int \<Rightarrow> AsyncStorage \<Rightarrow> outcome" where
  "request_failed err cacheKey now s =
     (case cached_lookup cacheKey now s of
        (cachedData, s') \<Rightarrow>
          if truthy cachedData
          then \<lparr>returned = Inr cachedData, store_after = s', request_calls = 1\<rparr>
          else \<lparr>returned = Inl err, store_after = s', request_calls = 1\<rparr>)"

definition makeRequest ::
  "(error + jsval) \<Rightarrow> jsval \<Rightarrow> string option \<Rightarrow> int \<Rightarrow> int \<Rightarrow> int \<Rightarrow> world \<Rightarrow> outcome" where
  "makeRequest requestFn fallbackData cacheKey now now1 now2 w =
     (if isOffline w then
        (case cached_lookup cacheKey now (storage w) of
           (cachedData, s') \<Rightarrow>
             if truthy cachedData
             then \<lparr>returned = Inr cachedData, store_after = s', request_calls = 0\<rparr>
             else if fallbackData \<noteq> Undefined
             then \<lparr>returned = Inr fallbackData, store_after = s', request_calls = 0\<rparr>
             else \<lparr>returned =
                      Inl (Error ''No internet connection and no cached data available''),
                    store_after = s', request_calls = 0\<rparr>)
      else
        (case requestFn of
           Inr result \<Rightarrow>
             (case (case cacheKey of
                      None \<Rightarrow> Inr (storage w)
                    | Some k \<Rightarrow>
                        if k \<noteq> [] then setCache k result (Some 30) now1 now2 (storage w)
                        else Inr (storage w)) of
                Inr s' \<Rightarrow> \<lparr>returned = Inr result, store_after = s', request_calls = 1\<rparr>
              | Inl err \<Rightarrow> request_failed err cacheKey now (storage w))
         | Inl err \<Rightarrow> request_failed err cacheKey now (storage w)))"

section \<open>Serialization round trip\<close>

lemma parse_serialize:
  "serializable v \<Longrightarrow> JSON_parse (serialize v) = v"
proof (induction v rule: serializable.induct)
  case (2 xs)
  then show ?case by (simp add: list_all_iff map_idI)
next
  case (3 kvs)
  have keep: "filter (\<lambda>(k, v). v \<noteq> Undefined) kvs = kvs"
    using 3(2) by (auto simp: list_all_iff filter_id_conv)
  have "map ((\<lambda>(k, v). (k, JSON_parse v)) \<circ> (\<lambda>(k, v). (k, serialize v))) kvs = kvs"
    using 3 by (intro map_idI) (auto simp: list_all_iff)
  then show ?case by (simp add: keep)
qed simp_all

lemma serializable_parse: "serializable (JSON_parse j)"
  by (induction j rule: JSON_parse.induct) (auto simp: list_all_iff)

lemma getItem_serializable: "serializable (getItem key s)"
  by (simp add: getItem_def serializable_parse split: option.splits)

lemma setItem_ok:
  "v \<noteq> Undefined \<Longrightarrow> setItem key v s = Inr (s(key \<mapsto> serialize v))"
  by (simp add: setItem_def JSON_stringify_def)

lemma getItem_upd_same: "getItem key (s(key \<mapsto> j)) = JSON_parse j"
  by (simp add: getItem_def)

lemma getItem_upd_other: "key' \<noteq> key \<Longrightarrow> getItem key' (s(key \<mapsto> j)) = getItem key' s"
  by (simp add: getItem_def)

lemma run_op_other: "op_key x \<noteq> key \<Longrightarrow> run_op x s key = s key"
  by (cases x)
    (auto simp: or_unchanged_def setItem_def removeItem_def split: option.splits sum.splits)

lemma run_ops_other: "\<forall>x \<in> set ops. op_key x \<noteq> key \<Longrightarrow> run_ops ops s key = s key"
  unfolding run_ops_def
  by (induction ops arbitrary: s) (simp_all add: run_op_other)

text \<open>
  C7.  For every key and every JSON-serializable value \<open>v\<close>: \<open>setItem key v\<close> succeeds, and a
  \<open>getItem key\<close> after it returns \<open>v\<close>, whatever writes and removals of other keys come in
  between.  \<open>getItem\<close> of a key that holds no entry returns \<open>null\<close>.
\<close>

theorem setItem_getItem_roundtrip:
  "(serializable v \<and> (\<forall>x \<in> set ops. op_key x \<noteq> key) \<longrightarrow>
      (\<exists>s'. setItem key v s = Inr s' \<and> getItem key (run_ops ops s') = v))
   \<and> (s0 key = None \<longrightarrow> getItem key s0 = Null)"
proof (intro conjI impI)
  assume a: "serializable v \<and> (\<forall>x \<in> set ops. op_key x \<noteq> key)"
  then have nu: "v \<noteq> Undefined" by auto
  have "getItem key (run_ops ops (s(key \<mapsto> serialize v))) = v"
    using a by (simp add: getItem_def run_ops_other parse_serialize)
  then show "\<exists>s'. setItem key v s = Inr s' \<and> getItem key (run_ops ops s') = v"
    using setItem_ok [OF nu] by simp
next
  assume "s0 key = None"
  then show "getItem key s0 = Null" by (simp add: getItem_def)
qed

theorem setItem_getItem_roundtrip_witness:
  "serializable (Obj [(''a'', Num 1), (''b'', Arr [Null, Str ''x''])])
   \<and> setItem ''k'' (Obj [(''a'', Num 1), (''b'', Arr [Null, Str ''x''])]) empty_store =
       Inr (empty_store(''k'' \<mapsto> JObj [(''a'', JNum 1), (''b'', JArr [JNull, JStr ''x''])]))
   \<and> getItem ''k''
         (run_ops [SetItem ''j'' (Num 2), RemoveItem ''j'']
            (empty_store(''k'' \<mapsto> JObj [(''a'', JNum 1), (''b'', JArr [JNull, JStr ''x''])])))
       = Obj [(''a'', Num 1), (''b'', Arr [Null, Str ''x''])]
   \<and> getItem ''k'' empty_store = Null"
proof -
  let ?v = "Obj [(''a'', Num 1), (''b'', Arr [Null, Str ''x''])]"
  let ?st = "empty_store(''k'' \<mapsto> JObj [(''a'', JNum 1), (''b'', JArr [JNull, JStr ''x''])])"
  let ?ops = "[SetItem ''j'' (Num 2), RemoveItem ''j'']"
  have ser: "serializable ?v" by simp
  have others: "\<forall>x \<in> set ?ops. op_key x \<noteq> ''k''" by simp
  have set: "setItem ''k'' ?v empty_store = Inr ?st"
    by (simp add: setItem_def JSON_stringify_def)
  have none: "empty_store ''k'' = None" by (simp add: empty_store_def)
  from setItem_getItem_roundtrip [of ?v ?ops "''k''" empty_store empty_store] ser others none
  have "(\<exists>s'. setItem ''k'' ?v empty_store = Inr s' \<and> getItem ''k'' (run_ops ?ops s') = ?v)
        \<and> getItem ''k'' empty_store = Null"
    by blast
  then have "getItem ''k'' (run_ops ?ops ?st) = ?v" and "getItem ''k'' empty_store = Null"
    unfolding set by auto
  then show ?thesis using ser set by blast
qed

section \<open>Cache entries\<close>

lemma setCache_Inr:
  "setCache key d m t1 t2 s =
     Inr (s(''cache_'' @ key \<mapsto>
        serialize (Obj [(''data'', d), (''timestamp'', Num t1),
          (''expiresAt'', (case m of None \<Rightarrow> Undefined
                 | Some m \<Rightarrow> if m \<noteq> 0 then Num (t2 + m * 60 * 1000) else Undefined))])))"
  by (simp add: setCache_def setItem_def JSON_stringify_def)

lemma getCache_absent: "s (''cache_'' @ key) = None \<Longrightarrow> getCache key now s = (Null, s)"
  by (simp add: getCache_def getItem_def)

lemma getCache_live:
  assumes "js_prop (getItem (''cache_'' @ key) s) ''expiresAt'' = Num e" "e \<noteq> 0"
  shows "getCache key now s =
      (if e < now then (Null, removeItem (''cache_'' @ key) s)
       else (js_prop (getItem (''cache_'' @ key) s) ''data'', s))"
proof -
  have "truthy (getItem (''cache_'' @ key) s)"
    using assms(1) by (cases "getItem (''cache_'' @ key) s") simp_all
  then show ?thesis using assms by (simp add: getCache_def Let_def)
qed

lemma getCache_no_expiry:
  assumes "truthy (getItem (''cache_'' @ key) s)"
     "js_prop (getItem (''cache_'' @ key) s) ''expiresAt'' = Undefined"
  shows "getCache key now s = (js_prop (getItem (''cache_'' @ key) s) ''data'', s)"
  using assms by (simp add: getCache_def Let_def)

lemma getItem_after_setCache:
  assumes "setCache key d m t1 t2 s = Inr s'" "serializable d"
  shows "getItem (''cache_'' @ key) s' =
     Obj ([(''data'', d), (''timestamp'', Num t1)] @
          (case m of None \<Rightarrow> [] | Some m \<Rightarrow> if m \<noteq> 0 then [(''expiresAt'', Num (t2 + m * 60 * 1000))] else []))"
proof -
  have "d \<noteq> Undefined" using assms(2) by auto
  then show ?thesis
  using assms unfolding setCache_Inr
  by (auto simp: getItem_def parse_serialize split: option.splits)
qed


lemma expiresAt_after_setCache:
  "setCache key d m t1 t2 s = Inr s' \<Longrightarrow>
   js_prop (getItem (''cache_'' @ key) s') ''expiresAt'' =
     (case m of None \<Rightarrow> Undefined
      | Some m \<Rightarrow> if m \<noteq> 0 then Num (t2 + m * 60 * 1000) else Undefined)"
  unfolding setCache_Inr
  by (cases "d = Undefined") (auto simp: getItem_def split: option.splits)

text \<open>
  C3 (amended).  For a cache entry stored with a non-zero expiry timestamp \<open>e\<close>, \<open>getCache\<close>
  at clock reading \<open>now\<close> returns the stored data and leaves the store alone when
  \<open>now \<le> e\<close>, and returns \<open>null\<close> after deleting the entry when \<open>e < now\<close>; in particular
  so for the entry \<open>setCache\<close> writes.  \<open>getCache\<close> of a key with no entry returns \<open>null\<close>.
\<close>

theorem getCache_expiry:
  "(js_prop (getItem (''cache_'' @ key) s) ''expiresAt'' = Num e \<and> e \<noteq> 0 \<longrightarrow>
      getCache key now s =
        (if now \<le> e then (js_prop (getItem (''cache_'' @ key) s) ''data'', s)
         else (Null, removeItem (''cache_'' @ key) s))
      \<and> removeItem (''cache_'' @ key) s (''cache_'' @ key) = None)
   \<and> (serializable d \<and> m \<noteq> 0 \<and> now2 + m * 60 * 1000 \<noteq> 0
        \<and> setCache key d (Some m) now1 now2 s0 = Inr s1 \<longrightarrow>
      getCache key now s1 =
        (if now \<le> now2 + m * 60 * 1000 then (d, s1)
         else (Null, removeItem (''cache_'' @ key) s1)))
   \<and> (s2 (''cache_'' @ key) = None \<longrightarrow> getCache key now s2 = (Null, s2))"
proof (intro conjI impI)
  assume a: "js_prop (getItem (''cache_'' @ key) s) ''expiresAt'' = Num e \<and> e \<noteq> 0"
  then show "getCache key now s =
        (if now \<le> e then (js_prop (getItem (''cache_'' @ key) s) ''data'', s)
         else (Null, removeItem (''cache_'' @ key) s))"
    using getCache_live [of key s e now] by auto
next
  show "removeItem (''cache_'' @ key) s (''cache_'' @ key) = None"
    by (simp add: removeItem_def)
next
  assume a: "serializable d \<and> m \<noteq> 0 \<and> now2 + m * 60 * 1000 \<noteq> 0
        \<and> setCache key d (Some m) now1 now2 s0 = Inr s1"
  then have item: "getItem (''cache_'' @ key) s1 =
      Obj [(''data'', d), (''timestamp'', Num now1), (''expiresAt'', Num (now2 + m * 60 * 1000))]"
    using getItem_after_setCache [of key d "Some m" now1 now2 s0 s1] by simp
  have "js_prop (getItem (''cache_'' @ key) s1) ''expiresAt'' = Num (now2 + m * 60 * 1000)"
    and "js_prop (getItem (''cache_'' @ key) s1) ''data'' = d"
    unfolding item by simp_all
  then show "getCache key now s1 =
        (if now \<le> now2 + m * 60 * 1000 then (d, s1)
         else (Null, removeItem (''cache_'' @ key) s1))"
    using a getCache_live [of key s1 "now2 + m * 60 * 1000" now] by auto
next
  assume "s2 (''cache_'' @ key) = None"
  then show "getCache key now s2 = (Null, s2)" by (rule getCache_absent)
qed

theorem getCache_expiry_witness:
  "setCache ''k'' (Str ''v'') (Some 30) 1000 1000 empty_store =
     Inr (empty_store(''cache_k'' \<mapsto>
       JObj [(''data'', JStr ''v''), (''timestamp'', JNum 1000), (''expiresAt'', JNum 1801000)]))
   \<and> getCache ''k'' 1801000 (empty_store(''cache_k'' \<mapsto>
       JObj [(''data'', JStr ''v''), (''timestamp'', JNum 1000), (''expiresAt'', JNum 1801000)]))
      = (Str ''v'', empty_store(''cache_k'' \<mapsto>
       JObj [(''data'', JStr ''v''), (''timestamp'', JNum 1000), (''expiresAt'', JNum 1801000)]))
   \<and> getCache ''k'' 1801001 (empty_store(''cache_k'' \<mapsto>
       JObj [(''data'', JStr ''v''), (''timestamp'', JNum 1000), (''expiresAt'', JNum 1801000)]))
      = (Null, removeItem ''cache_k'' (empty_store(''cache_k'' \<mapsto>
       JObj [(''data'', JStr ''v''), (''timestamp'', JNum 1000), (''expiresAt'', JNum 1801000)])))
   \<and> getCache ''k'' 7 empty_store = (Null, empty_store)"
proof -
  let ?st = "empty_store(''cache_k'' \<mapsto>
       JObj [(''data'', JStr ''v''), (''timestamp'', JNum 1000), (''expiresAt'', JNum 1801000)])"
  have set: "setCache ''k'' (Str ''v'') (Some 30) 1000 1000 empty_store = Inr ?st"
    by (simp add: setCache_def setItem_def JSON_stringify_def)
  have ex: "js_prop (getItem (''cache_'' @ ''k'') ?st) ''expiresAt'' = Num 1801000 \<and> (1801000::int) \<noteq> 0"
    by (simp add: getItem_def)
  have dat: "js_prop (getItem (''cache_'' @ ''k'') ?st) ''data'' = Str ''v''"
    by (simp add: getItem_def)
  have none: "empty_store (''cache_'' @ ''k'') = None" by (simp add: empty_store_def)
  from getCache_expiry [of "''k''" ?st 1801000 1801000] ex dat
  have live: "getCache ''k'' 1801000 ?st = (Str ''v'', ?st)" by simp
  from getCache_expiry [of "''k''" ?st 1801000 1801001] ex
  have dead: "getCache ''k'' 1801001 ?st = (Null, removeItem ''cache_k'' ?st)" by simp
  from getCache_expiry [of "''k''" _ _ 7 _ _ _ _ _ _ empty_store] none
  have absent: "getCache ''k'' 7 empty_store = (Null, empty_store)" by simp
  show ?thesis using set live dead absent by blast
qed


text \<open>
  C3 as stated fails for the expiry timestamp 0, which \<open>getCache\<close> reads as "no expiry":
  the entry written one minute after the epoch with \<open>expirationMinutes = -1\<close> is still
  returned, and kept, at clock reading 1.
\<close>

theorem getCache_expiry_counterexample:
  "setCache ''k'' (Str ''v'') (Some (- 1)) 60000 60000 empty_store =
     Inr (empty_store(''cache_k'' \<mapsto>
       JObj [(''data'', JStr ''v''), (''timestamp'', JNum 60000), (''expiresAt'', JNum 0)]))
   \<and> js_prop (getItem ''cache_k'' (empty_store(''cache_k'' \<mapsto>
       JObj [(''data'', JStr ''v''), (''timestamp'', JNum 60000), (''expiresAt'', JNum 0)])))
       ''expiresAt'' = Num 0
   \<and> (0::int) < 1
   \<and> getCache ''k'' 1 (empty_store(''cache_k'' \<mapsto>
       JObj [(''data'', JStr ''v''), (''timestamp'', JNum 60000), (''expiresAt'', JNum 0)]))
      = (Str ''v'', empty_store(''cache_k'' \<mapsto>
       JObj [(''data'', JStr ''v''), (''timestamp'', JNum 60000), (''expiresAt'', JNum 0)]))
   \<and> fst (getCache ''k'' 1 (empty_store(''cache_k'' \<mapsto>
       JObj [(''data'', JStr ''v''), (''timestamp'', JNum 60000), (''expiresAt'', JNum 0)])))
      \<noteq> Null"
  by (simp add: setCache_def setItem_def JSON_stringify_def getCache_def getItem_def)

text \<open>
  C4 (amended).  \<open>setCache\<close> with a non-zero \<open>expirationMinutes\<close> stores an entry whose
  \<open>expiresAt\<close> is the clock reading plus \<open>expirationMinutes * 60 * 1000\<close>; with the argument
  omitted, or zero, it stores an entry with no \<open>expiresAt\<close>.  An entry with no \<open>expiresAt\<close>
  is returned by \<open>getCache\<close> at every clock reading, and the store is left as it is.
\<close>

theorem setCache_expiresAt:
  "(m \<noteq> 0 \<longrightarrow>
      (\<exists>s1. setCache key d (Some m) now1 now2 s = Inr s1
         \<and> js_prop (getItem (''cache_'' @ key) s1) ''expiresAt'' = Num (now2 + m * 60 * 1000)))
   \<and> (m' = None \<or> m' = Some 0 \<longrightarrow>
      (\<exists>s1. setCache key d m' now1 now2 s = Inr s1
         \<and> js_prop (getItem (''cache_'' @ key) s1) ''expiresAt'' = Undefined
         \<and> (serializable d \<longrightarrow> getCache key now s1 = (d, s1))))
   \<and> (truthy (getItem (''cache_'' @ key) s2)
        \<and> js_prop (getItem (''cache_'' @ key) s2) ''expiresAt'' = Undefined \<longrightarrow>
      getCache key now s2 = (js_prop (getItem (''cache_'' @ key) s2) ''data'', s2))"
proof (intro conjI impI)
  assume m: "m \<noteq> 0"
  obtain s1 where s1: "setCache key d (Some m) now1 now2 s = Inr s1"
    by (simp add: setCache_Inr)
  from expiresAt_after_setCache [OF s1] m
  have "js_prop (getItem (''cache_'' @ key) s1) ''expiresAt'' = Num (now2 + m * 60 * 1000)"
    by simp
  with s1 show "\<exists>s1. setCache key d (Some m) now1 now2 s = Inr s1
         \<and> js_prop (getItem (''cache_'' @ key) s1) ''expiresAt'' = Num (now2 + m * 60 * 1000)"
    by blast
next
  assume m': "m' = None \<or> m' = Some 0"
  obtain s1 where s1: "setCache key d m' now1 now2 s = Inr s1"
    by (simp add: setCache_Inr)
  from expiresAt_after_setCache [OF s1] m'
  have ex: "js_prop (getItem (''cache_'' @ key) s1) ''expiresAt'' = Undefined"
    by auto
  have "getCache key now s1 = (d, s1)" if ser: "serializable d"
  proof -
    have item: "getItem (''cache_'' @ key) s1 = Obj [(''data'', d), (''timestamp'', Num now1)]"
      using getItem_after_setCache [OF s1 ser] m' by auto
    have "truthy (getItem (''cache_'' @ key) s1)"
      and "js_prop (getItem (''cache_'' @ key) s1) ''data'' = d"
      unfolding item by simp_all
    then show ?thesis using getCache_no_expiry [of key s1 now] ex by simp
  qed
  with s1 ex show "\<exists>s1. setCache key d m' now1 now2 s = Inr s1
         \<and> js_prop (getItem (''cache_'' @ key) s1) ''expiresAt'' = Undefined
         \<and> (serializable d \<longrightarrow> getCache key now s1 = (d, s1))"
    by blast
next
  assume "truthy (getItem (''cache_'' @ key) s2)
        \<and> js_prop (getItem (''cache_'' @ key) s2) ''expiresAt'' = Undefined"
  then show "getCache key now s2 = (js_prop (getItem (''cache_'' @ key) s2) ''data'', s2)"
    using getCache_no_expiry [of key s2 now] by simp
qed

theorem setCache_expiresAt_witness:
  "setCache ''k'' (Str ''v'') (Some 30) 1000 1001 empty_store =
     Inr (empty_store(''cache_k'' \<mapsto>
       JObj [(''data'', JStr ''v''), (''timestamp'', JNum 1000), (''expiresAt'', JNum 1801001)]))
   \<and> js_prop (getItem ''cache_k'' (empty_store(''cache_k'' \<mapsto>
       JObj [(''data'', JStr ''v''), (''timestamp'', JNum 1000), (''expiresAt'', JNum 1801001)])))
       ''expiresAt'' = Num (1001 + 30 * 60 * 1000)
   \<and> setCache ''k'' (Str ''v'') None 1000 1001 empty_store =
     Inr (empty_store(''cache_k'' \<mapsto> JObj [(''data'', JStr ''v''), (''timestamp'', JNum 1000)]))
   \<and> getCache ''k'' 99999999999 (empty_store(''cache_k'' \<mapsto>
        JObj [(''data'', JStr ''v''), (''timestamp'', JNum 1000)]))
      = (Str ''v'', empty_store(''cache_k'' \<mapsto>
        JObj [(''data'', JStr ''v''), (''timestamp'', JNum 1000)]))"
proof -
  let ?st = "empty_store(''cache_k'' \<mapsto>
       JObj [(''data'', JStr ''v''), (''timestamp'', JNum 1000), (''expiresAt'', JNum 1801001)])"
  let ?st' = "empty_store(''cache_k'' \<mapsto>
       JObj [(''data'', JStr ''v''), (''timestamp'', JNum 1000)])"
  have set: "setCache ''k'' (Str ''v'') (Some 30) 1000 1001 empty_store = Inr ?st"
    by (simp add: setCache_def setItem_def JSON_stringify_def)
  have set': "setCache ''k'' (Str ''v'') None 1000 1001 empty_store = Inr ?st'"
    by (simp add: setCache_def setItem_def JSON_stringify_def)
  from setCache_expiresAt [of 30 "''k''" "Str ''v''" 1000 1001 empty_store] set
  have a: "js_prop (getItem ''cache_k'' ?st) ''expiresAt'' = Num (1001 + 30 * 60 * 1000)"
    by simp
  from setCache_expiresAt [of _ "''k''" "Str ''v''" 1000 1001 empty_store None 99999999999] set'
  have b: "getCache ''k'' 99999999999 ?st' = (Str ''v'', ?st')"
    by simp
  show ?thesis using set set' a b by blast
qed

text \<open>
  C4 as stated fails when the expiration supplied is 0: the entry has no \<open>expiresAt\<close>,
  not the clock reading plus \<open>0 * 60 * 1000\<close>.
\<close>

theorem setCache_expiresAt_counterexample:
  "setCache ''k'' (Str ''v'') (Some 0) 5 5 empty_store =
     Inr (empty_store(''cache_k'' \<mapsto> JObj [(''data'', JStr ''v''), (''timestamp'', JNum 5)]))
   \<and> js_prop (getItem ''cache_k'' (empty_store(''cache_k'' \<mapsto>
        JObj [(''data'', JStr ''v''), (''timestamp'', JNum 5)]))) ''expiresAt'' = Undefined
   \<and> js_prop (getItem ''cache_k'' (empty_store(''cache_k'' \<mapsto>
        JObj [(''data'', JStr ''v''), (''timestamp'', JNum 5)]))) ''expiresAt''
      \<noteq> Num (5 + 0 * 60 * 1000)"
  by (simp add: setCache_def setItem_def JSON_stringify_def getItem_def)

section \<open>Recent searches\<close>

lemma type_name_inj: "type_name a = type_name b \<Longrightarrow> a = b"
  by (cases a; cases b) simp_all

lemma recent_serializable:
  assumes "getRecentSearches ty s = Arr old"
  shows "list_all serializable old"
proof (cases "truthy (getItem (''recent_'' @ type_name ty) s)")
  case True
  then have "getItem (''recent_'' @ type_name ty) s = Arr old"
    using assms by (simp add: getRecentSearches_def js_or_def)
  then show ?thesis
    using getItem_serializable [of "''recent_'' @ type_name ty" s] by simp
next
  case False
  then show ?thesis using assms by (simp add: getRecentSearches_def js_or_def)
qed

lemma addRecentSearch_stored:
  assumes "getRecentSearches ty s = Arr old"
  shows "getRecentSearches ty (addRecentSearch q ty s) =
           Arr (Str q # take 9 (filter (\<lambda>item. item \<noteq> Str q) old))"
proof -
  let ?k = "''recent_'' @ type_name ty"
  let ?new = "Str q # take 9 (filter (\<lambda>item. item \<noteq> Str q) old)"
  have old: "js_or (getItem ?k s) (Arr []) = Arr old"
    using assms by (simp add: getRecentSearches_def)
  have ser: "serializable (Arr ?new)"
    using recent_serializable [OF assms] by (auto simp: list_all_iff dest: in_set_takeD)
  have t: "take 10 (Str q # filter (\<lambda>item. item \<noteq> Str q) old) = ?new"
    by (simp add: take_Cons')
  have "addRecentSearch q ty s = s(?k \<mapsto> serialize (Arr ?new))"
    unfolding addRecentSearch_def Let_def old t
    by (simp add: setItem_ok or_unchanged_def del: serialize.simps)
  then have "getItem ?k (addRecentSearch q ty s) = Arr ?new"
    using parse_serialize [OF ser] by (simp add: getItem_def del: serialize.simps)
  then show ?thesis by (simp add: getRecentSearches_def js_or_def)
qed

lemma addRecentSearch_other:
  assumes "ty' \<noteq> ty"
  shows "getRecentSearches ty' (addRecentSearch q ty s) = getRecentSearches ty' s"
proof -
  have "type_name ty' \<noteq> type_name ty" using assms type_name_inj by blast
  then have "addRecentSearch q ty s (''recent_'' @ type_name ty') = s (''recent_'' @ type_name ty')"
    by (auto simp: addRecentSearch_def Let_def or_unchanged_def setItem_def split: jsval.splits option.splits sum.splits)
  then show ?thesis by (simp add: getRecentSearches_def getItem_def)
qed

text \<open>
  C10.  When the store holds an array (or nothing) under the key of the search type, the
  list stored after \<open>addRecentSearch query ty\<close> has \<open>query\<close> first, no other occurrence
  of it, then the remaining old entries in their old order (a subsequence of the old
  list), and at most 10 elements; the lists of the other types are untouched.
\<close>

theorem addRecentSearch_front:
  "(getRecentSearches ty s = Arr old \<longrightarrow>
      (\<exists>rest. getRecentSearches ty (addRecentSearch query ty s) = Arr (Str query # rest)
         \<and> Str query \<notin> set rest
         \<and> rest = take 9 (filter (\<lambda>item. item \<noteq> Str query) old)
         \<and> subseq rest old
         \<and> length (Str query # rest) \<le> 10))
   \<and> (ty' \<noteq> ty \<longrightarrow>
        getRecentSearches ty' (addRecentSearch query ty s) = getRecentSearches ty' s)"
proof (intro conjI impI)
  assume a: "getRecentSearches ty s = Arr old"
  let ?rest = "take 9 (filter (\<lambda>item. item \<noteq> Str query) old)"
  have 1: "Str query \<notin> set ?rest" by (auto dest: in_set_takeD)
  have 2: "subseq ?rest old"
  proof -
    have "subseq ?rest (filter (\<lambda>item. item \<noteq> Str query) old)"
      by (rule prefix_imp_subseq) (rule take_is_prefix)
    then show ?thesis
      using subseq_filter_left subseq_order.order_trans by blast
  qed
  have 3: "length (Str query # ?rest) \<le> 10" by simp
  from addRecentSearch_stored [OF a, of query] 1 2 3
  show "\<exists>rest. getRecentSearches ty (addRecentSearch query ty s) = Arr (Str query # rest)
         \<and> Str query \<notin> set rest
         \<and> rest = take 9 (filter (\<lambda>item. item \<noteq> Str query) old)
         \<and> subseq rest old
         \<and> length (Str query # rest) \<le> 10"
    by blast
next
  assume "ty' \<noteq> ty"
  then show "getRecentSearches ty' (addRecentSearch query ty s) = getRecentSearches ty' s"
    by (rule addRecentSearch_other)
qed

theorem addRecentSearch_front_witness:
  "getRecentSearches posts
      (empty_store(''recent_posts'' \<mapsto> JArr [JStr ''a'', JStr ''b'', JStr ''c'']))
     = Arr [Str ''a'', Str ''b'', Str ''c'']
   \<and> getRecentSearches posts
        (addRecentSearch ''b'' posts
           (empty_store(''recent_posts'' \<mapsto> JArr [JStr ''a'', JStr ''b'', JStr ''c''])))
     = Arr [Str ''b'', Str ''a'', Str ''c'']
   \<and> getRecentSearches users
        (addRecentSearch ''b'' posts
           (empty_store(''recent_posts'' \<mapsto> JArr [JStr ''a'', JStr ''b'', JStr ''c''])))
     = Arr []"
proof -
  let ?s = "empty_store(''recent_posts'' \<mapsto> JArr [JStr ''a'', JStr ''b'', JStr ''c''])"
  have old: "getRecentSearches posts ?s = Arr [Str ''a'', Str ''b'', Str ''c'']"
    by (simp add: getRecentSearches_def getItem_def js_or_def)
  have u: "getRecentSearches users ?s = Arr []"
    by (simp add: getRecentSearches_def getItem_def js_or_def empty_store_def)
  from addRecentSearch_front [of posts ?s "[Str ''a'', Str ''b'', Str ''c'']" "''b''" users] old u
  show ?thesis by auto
qed

section \<open>A pass that runs alone\<close>

text \<open>
  The suspended pass, settled call by call with nothing in between, computes what
  \<open>processOfflineQueue\<close> computes on the manager with no pass in flight; so the listener followed
  by its pass alone is the step \<open>onNetworkChange_settled\<close>, and a session without overlapping
  passes on the system is \<open>run\<close>.
\<close>

lemma process_items_Cons:
  "process_items succeeds (item # rest) P log =
     (case process_items succeeds rest
             (if succeeds (length log) \<or> or_zero (retryCount item) + 1 \<ge> 3
              then P @ [item_id item] else P)
             (log @ [item]) of
        (rest', P', log') \<Rightarrow>
          ((if succeeds (length log) then item else bump item) # rest', P', log'))"
  by (simp add: bump_def Let_def or_zero_def)

lemma resume_single:
  fixes ok :: bool
  assumes ps: "passes sys = [pa]"
    and j: "position pa < length (arrays sys ! iterated pa)"
    and r: "arrays sys ! iterated pa ! position pa < length (objects sys)"
  defines "arr \<equiv> arrays sys ! iterated pa"
  defines "item \<equiv> objects sys ! (arr ! position pa)"
  defines "objs \<equiv> (if ok then objects sys else (objects sys)[arr ! position pa := bump item])"
  defines "P \<equiv> (if ok \<or> or_zero (retryCount item) + 1 \<ge> 3
                 then processed pa @ [item_id item] else processed pa)"
  shows "resume_processOfflineQueue 0 ok sys =
     (if position pa + 1 < length arr
      then sys\<lparr>objects := objs,
                m_executed := m_executed sys @ [objs ! (arr ! (position pa + 1))],
                passes := [pa\<lparr>position := position pa + 1, processed := P\<rparr>]\<rparr>
      else sys\<lparr>objects := objs,
                arrays := arrays sys @
                  [filter (\<lambda>r. item_id (objs ! r) \<notin> set P) (arrays sys ! m_offlineQueue sys)],
                m_offlineQueue := length (arrays sys),
                passes := [],
                m_storage := fold removeFromOfflineQueue P (m_storage sys),
                m_alerts := (if length P > 0 then m_alerts sys @ [length P] else m_alerts sys)\<rparr>)"
proof (cases ok)
  case True
  then show ?thesis
    using ps by (simp add: resume_processOfflineQueue_def Let_def arr_def item_def objs_def P_def)
next
  case False
  have "or_zero (retryCount (bump item)) = or_zero (retryCount item) + 1"
    by (simp add: bump_def or_zero_def)
  then show ?thesis
    using ps False r
    by (simp add: resume_processOfflineQueue_def Let_def arr_def item_def objs_def P_def
        bump_def)
qed


lemma map_nth_update_other:
  "r \<notin> set rs \<Longrightarrow> map (nth (xs[r := v])) rs = map (nth xs) rs"
  by (induction rs) auto

lemma map_nth_maybe_update:
  "r \<notin> set rs \<Longrightarrow> map (nth (if c then xs else xs[r := v])) rs = map (nth xs) rs"
  using map_nth_update_other [of r rs xs v] by (cases c) simp_all

lemma settle_loop:
  assumes "passes sys = [pa]"
    and "iterated pa = m_offlineQueue sys"
    and "position pa = j" and "j < length arr"
    and "arr = arrays sys ! m_offlineQueue sys"
    and "\<forall>r \<in> set arr. r < length (objects sys)" and "distinct arr"
    and "m_executed sys = log @ [objects sys ! (arr ! j)]"
    and "process_items succeeds (map (nth (objects sys)) (drop j arr)) (processed pa) log
           = (items', P', log')"
    and "n = length arr - j"
  shows "passes (settle succeeds n sys) = []
    \<and> m_executed (settle succeeds n sys) = log'
    \<and> length (objects (settle succeeds n sys)) = length (objects sys)
    \<and> map (nth (objects (settle succeeds n sys))) arr
        = map (nth (objects sys)) (take j arr) @ items'
    \<and> arrays (settle succeeds n sys) = arrays sys @
        [filter (\<lambda>r. item_id (objects (settle succeeds n sys) ! r) \<notin> set P') arr]
    \<and> m_offlineQueue (settle succeeds n sys) = length (arrays sys)
    \<and> m_storage (settle succeeds n sys) = fold removeFromOfflineQueue P' (m_storage sys)
    \<and> m_alerts (settle succeeds n sys)
        = (if length P' > 0 then m_alerts sys @ [length P'] else m_alerts sys)
    \<and> m_networkState (settle succeeds n sys) = m_networkState sys
    \<and> m_listeners (settle succeeds n sys) = m_listeners sys
    \<and> m_notified (settle succeeds n sys) = m_notified sys"
  using assms
proof (induction n arbitrary: sys pa j log items')
  case 0
  then show ?case by simp
next
  case (Suc n)
  let ?r = "arr ! j"
  let ?item = "objects sys ! ?r"
  let ?ok = "succeeds (length log)"
  let ?item1 = "if ?ok then ?item else bump ?item"
  let ?objs = "if ?ok then objects sys else (objects sys)[?r := bump ?item]"
  let ?P = "if ?ok \<or> or_zero (retryCount ?item) + 1 \<ge> 3
            then processed pa @ [item_id ?item] else processed pa"
  let ?s1 = "resume_processOfflineQueue 0 ?ok sys"
  have arr: "arrays sys ! iterated pa = arr" using Suc.prems by simp
  have rj: "?r < length (objects sys)" using Suc.prems by simp
  have len: "length (m_executed sys) - 1 = length log" using Suc.prems by simp
  have unfold: "settle succeeds (Suc n) sys = settle succeeds n ?s1"
    using len by simp
  have dropj: "drop j arr = ?r # drop (Suc j) arr"
    using Suc.prems by (simp add: Cons_nth_drop_Suc)
  have notin_drop: "?r \<notin> set (drop (Suc j) arr)"
    using Suc.prems dropj by (metis distinct.simps(2) distinct_drop)
  have notin_take: "?r \<notin> set (take j arr)"
  proof
    assume "?r \<in> set (take j arr)"
    then obtain i where "i < j" "arr ! i = ?r"
      using Suc.prems by (auto simp: in_set_conv_nth)
    then show False using Suc.prems by (simp add: nth_eq_iff_index_eq)
  qed
  have same_drop: "map (nth ?objs) (drop (Suc j) arr) = map (nth (objects sys)) (drop (Suc j) arr)"
    using notin_drop by (rule map_nth_maybe_update)
  have same_take: "map (nth ?objs) (take j arr) = map (nth (objects sys)) (take j arr)"
    using notin_take by (rule map_nth_maybe_update)
  have at_r: "?objs ! ?r = ?item1" using rj by simp
  obtain rest' where rest:
    "process_items succeeds (map (nth (objects sys)) (drop (Suc j) arr)) ?P (log @ [?item])
       = (rest', P', log')"
    and items': "items' = ?item1 # rest'"
    using Suc.prems(9) unfolding dropj list.map process_items_Cons
    by (auto split: prod.splits)
  note step = resume_single [of sys pa ?ok, unfolded arr, OF Suc.prems(1)]
  show ?case
  proof (cases "j + 1 < length arr")
    case True
    have s1: "?s1 = sys\<lparr>objects := ?objs,
                m_executed := m_executed sys @ [?objs ! (arr ! (j + 1))],
                passes := [pa\<lparr>position := j + 1, processed := ?P\<rparr>]\<rparr>"
      using step Suc.prems True rj by simp
    have next_same: "?objs ! (arr ! (j + 1)) = objects sys ! (arr ! (j + 1))"
    proof -
      have "arr ! (j + 1) \<noteq> ?r"
        using True Suc.prems by (simp add: nth_eq_iff_index_eq)
      then show ?thesis by simp
    qed
    let ?pa1 = "pa\<lparr>position := j + 1, processed := ?P\<rparr>"
    have IH: "passes (settle succeeds n ?s1) = []
      \<and> m_executed (settle succeeds n ?s1) = log'
      \<and> length (objects (settle succeeds n ?s1)) = length (objects ?s1)
      \<and> map (nth (objects (settle succeeds n ?s1))) arr
          = map (nth (objects ?s1)) (take (j + 1) arr) @ rest'
      \<and> arrays (settle succeeds n ?s1) = arrays ?s1 @
          [filter (\<lambda>r. item_id (objects (settle succeeds n ?s1) ! r) \<notin> set P') arr]
      \<and> m_offlineQueue (settle succeeds n ?s1) = length (arrays ?s1)
      \<and> m_storage (settle succeeds n ?s1) = fold removeFromOfflineQueue P' (m_storage ?s1)
      \<and> m_alerts (settle succeeds n ?s1)
          = (if length P' > 0 then m_alerts ?s1 @ [length P'] else m_alerts ?s1)
      \<and> m_networkState (settle succeeds n ?s1) = m_networkState ?s1
      \<and> m_listeners (settle succeeds n ?s1) = m_listeners ?s1
      \<and> m_notified (settle succeeds n ?s1) = m_notified ?s1"
    proof (rule Suc.IH [of ?s1 ?pa1 "j + 1" "log @ [?item]" rest'])
      show "passes ?s1 = [?pa1]" by (simp add: s1)
      show "iterated ?pa1 = m_offlineQueue ?s1" using Suc.prems by (simp add: s1)
      show "position ?pa1 = j + 1" by simp
      show "j + 1 < length arr" by (rule True)
      show "arr = arrays ?s1 ! m_offlineQueue ?s1" using Suc.prems by (simp add: s1)
      show "\<forall>r \<in> set arr. r < length (objects ?s1)" using Suc.prems by (simp add: s1)
      show "distinct arr" using Suc.prems by simp
      show "m_executed ?s1 = (log @ [?item]) @ [objects ?s1 ! (arr ! (j + 1))]"
        using Suc.prems next_same by (simp add: s1)
      have e1: "map (nth (objects ?s1)) (drop (j + 1) arr)
          = map (nth (objects sys)) (drop (Suc j) arr)"
        using same_drop by (simp add: s1)
      have e2: "processed ?pa1 = ?P" by simp
      show "process_items succeeds (map (nth (objects ?s1)) (drop (j + 1) arr))
              (processed ?pa1) (log @ [?item]) = (rest', P', log')"
        unfolding e1 e2 by (rule rest)
      show "n = length arr - (j + 1)" using Suc.prems by simp
    qed
    have tk: "map (nth (objects ?s1)) (take (j + 1) arr) @ rest'
        = map (nth (objects sys)) (take j arr) @ items'"
      using Suc.prems same_take at_r
      by (simp add: s1 items' take_Suc_conv_app_nth)
    show ?thesis
      unfolding unfold using IH tk by (simp add: s1)
  next
    case False
    then have last: "Suc j = length arr" using Suc.prems by simp
    then have n0: "n = 0" using Suc.prems by simp
    have s1: "?s1 = sys\<lparr>objects := ?objs,
                arrays := arrays sys @
                  [filter (\<lambda>r. item_id (?objs ! r) \<notin> set ?P) arr],
                m_offlineQueue := length (arrays sys),
                passes := [],
                m_storage := fold removeFromOfflineQueue ?P (m_storage sys),
                m_alerts := (if length ?P > 0 then m_alerts sys @ [length ?P] else m_alerts sys)\<rparr>"
      using step Suc.prems False rj by simp
    have "drop (Suc j) arr = []" using last by simp
    then have fin: "rest' = []" "P' = ?P" "log' = log @ [?item]"
      using rest by simp_all
    have whole: "arr = take j arr @ [?r]"
      using last by (metis Suc.prems(4) take_Suc_conv_app_nth take_all order_refl)
    have "map (nth ?objs) arr = map (nth (objects sys)) (take j arr) @ items'"
    proof -
      have "map (nth ?objs) arr = map (nth ?objs) (take j arr) @ [?objs ! ?r]"
        by (subst whole) simp
      then show ?thesis using same_take at_r by (simp add: items' fin)
    qed
    then show ?thesis
      unfolding unfold n0 using Suc.prems fin by (simp add: s1)
  qed
qed


lemma settle_idle: "passes sys = [] \<Longrightarrow> settle succeeds n sys = sys"
proof (induction n arbitrary: sys)
  case 0
  show ?case by simp
next
  case (Suc n)
  then have "resume_processOfflineQueue 0 (succeeds (length (m_executed sys) - 1)) sys = sys"
    by (simp add: resume_processOfflineQueue_def)
  then show ?case using Suc by simp
qed

lemma replay_alone_closed:
  assumes idle: "passes sys = []" and wf: "well_formed sys"
  shows "view (replay_alone succeeds state sys) =
     (let wasOffline = \<not> isConnected (networkState (view sys));
          isNowOnline = isConnected (newNetworkState state);
          w' = (view sys)\<lparr>networkState := newNetworkState state,
                 notified := notified (view sys) @
                   map (\<lambda>l. (l, newNetworkState state)) (listeners (view sys))\<rparr>
      in if wasOffline \<and> isNowOnline then processOfflineQueue succeeds w' else w')
     \<and> passes (replay_alone succeeds state sys) = []
     \<and> well_formed (replay_alone succeeds state sys)"
proof -
  let ?arr = "arrays sys ! m_offlineQueue sys"
  let ?sys' = "sys\<lparr>m_networkState := newNetworkState state,
                     m_notified := m_notified sys @
                       map (\<lambda>l. (l, newNetworkState state)) (m_listeners sys)\<rparr>"
  let ?w' = "(view sys)\<lparr>networkState := newNetworkState state,
                 notified := notified (view sys) @
                   map (\<lambda>l. (l, newNetworkState state)) (listeners (view sys))\<rparr>"
  have vw: "view ?sys' = ?w'" by (simp add: view_def)
  have idle': "passes ?sys' = []" using idle by simp
  have wf': "well_formed ?sys'" using wf by (simp add: well_formed_def)
  have q: "offlineQueue ?w' = map (nth (objects sys)) ?arr" by (simp add: view_def)
  show ?thesis
  proof (cases "\<not> isConnected (m_networkState sys) \<and> isConnected (newNetworkState state)
                 \<and> ?arr \<noteq> []")
    case False
    then have "onNetworkChange state sys = ?sys'"
      by (auto simp: onNetworkChange_def Let_def start_processOfflineQueue_def)
    then have r: "replay_alone succeeds state sys = ?sys'"
      using idle' by (simp add: replay_alone_def settle_idle)
    have "processOfflineQueue succeeds ?w' = ?w'" if "?arr = []"
      using that q by (simp add: processOfflineQueue_def)
    then show ?thesis
      unfolding r using False vw idle' wf' by (auto simp: Let_def view_def)
  next
    case True
    let ?s0 = "?sys'\<lparr>m_executed := m_executed sys @ [objects sys ! (?arr ! 0)],
                      passes := [\<lparr>iterated = m_offlineQueue sys, position = 0, processed = []\<rparr>]\<rparr>"
    have start: "onNetworkChange state sys = ?s0"
      using True idle by (simp add: onNetworkChange_def Let_def start_processOfflineQueue_def)
    obtain items' P' log' where pi:
      "process_items succeeds (map (nth (objects sys)) ?arr) [] (m_executed sys) = (items', P', log')"
      by (metis prod_cases3)
    let ?fin = "settle succeeds (length ?arr) ?s0"
    have refs: "\<forall>r \<in> set ?arr. r < length (objects sys)" and dist: "distinct ?arr"
      and cur: "m_offlineQueue sys < length (arrays sys)"
      using wf by (simp_all add: well_formed_def list_all_iff)
    have loop: "passes ?fin = []
      \<and> m_executed ?fin = log'
      \<and> length (objects ?fin) = length (objects ?s0)
      \<and> map (nth (objects ?fin)) ?arr = map (nth (objects ?s0)) (take 0 ?arr) @ items'
      \<and> arrays ?fin = arrays ?s0 @
          [filter (\<lambda>r. item_id (objects ?fin ! r) \<notin> set P') ?arr]
      \<and> m_offlineQueue ?fin = length (arrays ?s0)
      \<and> m_storage ?fin = fold removeFromOfflineQueue P' (m_storage ?s0)
      \<and> m_alerts ?fin = (if length P' > 0 then m_alerts ?s0 @ [length P'] else m_alerts ?s0)
      \<and> m_networkState ?fin = m_networkState ?s0
      \<and> m_listeners ?fin = m_listeners ?s0
      \<and> m_notified ?fin = m_notified ?s0"
    proof (rule settle_loop [of ?s0 "\<lparr>iterated = m_offlineQueue sys, position = 0, processed = []\<rparr>"
          0 ?arr "m_executed sys" succeeds items' P' log' "length ?arr"])
      show "passes ?s0 = [\<lparr>iterated = m_offlineQueue sys, position = 0, processed = []\<rparr>]"
        by simp
      show "0 < length ?arr" using True by simp
      show "process_items succeeds (map (nth (objects ?s0)) (drop 0 ?arr))
          (processed \<lparr>iterated = m_offlineQueue sys, position = 0, processed = []\<rparr>)
          (m_executed sys) = (items', P', log')"
        using pi by simp
    qed (use refs dist in simp_all)
    have r: "replay_alone succeeds state sys = ?fin"
      by (simp add: replay_alone_def start)
    have qfin: "map (nth (objects ?fin)) (arrays ?fin ! m_offlineQueue ?fin)
        = filter (\<lambda>item. item_id item \<notin> set P') items'"
    proof -
      have "arrays ?fin ! m_offlineQueue ?fin
          = filter (\<lambda>r. item_id (objects ?fin ! r) \<notin> set P') ?arr"
        using loop by simp
      then have "map (nth (objects ?fin)) (arrays ?fin ! m_offlineQueue ?fin)
          = filter (\<lambda>item. item_id item \<notin> set P') (map (nth (objects ?fin)) ?arr)"
        by (simp add: filter_map comp_def)
      then show ?thesis using loop by simp
    qed
    have pass: "processOfflineQueue succeeds ?w' =
        ?w'\<lparr>offlineQueue := filter (\<lambda>item. item_id item \<notin> set P') items',
             storage := fold removeFromOfflineQueue P' (storage ?w'),
             executed := log',
             alerts := (if length P' > 0 then alerts ?w' @ [length P'] else alerts ?w')\<rparr>"
      using True pi by (simp add: processOfflineQueue_def view_def)
    have v: "view ?fin = processOfflineQueue succeeds ?w'"
      unfolding pass using loop qfin by (simp add: view_def)
    have w: "well_formed ?fin"
    proof -
      have a: "arrays ?fin ! m_offlineQueue ?fin
          = filter (\<lambda>r. item_id (objects ?fin ! r) \<notin> set P') ?arr"
        using loop by simp
      have "m_offlineQueue ?fin < length (arrays ?fin)" using loop by simp
      moreover have "list_all (\<lambda>r. r < length (objects ?fin)) (arrays ?fin ! m_offlineQueue ?fin)"
        unfolding a using refs loop by (simp add: list_all_iff)
      moreover have "distinct (arrays ?fin ! m_offlineQueue ?fin)"
        unfolding a using dist by simp
      ultimately show ?thesis by (simp add: well_formed_def)
    qed
    have c: "\<not> isConnected (networkState (view sys)) \<and> isConnected (newNetworkState state)"
      using True by (simp add: view_def)
    show ?thesis
      unfolding r using v w loop c by (simp add: Let_def)
  qed
qed

lemma view_system_of: "view (system_of w) = w"
  by (simp add: view_def system_of_def map_nth)

lemma system_of_idle: "passes (system_of w) = []"
  by (simp add: system_of_def)

lemma system_of_well_formed: "well_formed (system_of w)"
  by (simp add: system_of_def well_formed_def list_all_iff)

lemma onNetworkChange_settled_eq:
  "onNetworkChange_settled succeeds state w =
     (let wasOffline = \<not> isConnected (networkState w);
          isNowOnline = isConnected (newNetworkState state);
          w' = w\<lparr>networkState := newNetworkState state,
                 notified := notified w @ map (\<lambda>l. (l, newNetworkState state)) (listeners w)\<rparr>
      in if wasOffline \<and> isNowOnline then processOfflineQueue succeeds w' else w')"
  unfolding onNetworkChange_settled_def
  using replay_alone_closed [OF system_of_idle system_of_well_formed, of succeeds state w]
  by (simp only: view_system_of)



section \<open>The offline queue\<close>

lemma process_items_closed:
  "process_items succeeds q p log =
     (map (\<lambda>e. if succeeds (fst e) then snd e else bump (snd e)) (enumerate (length log) q),
      p @ map (item_id \<circ> snd) (filter (\<lambda>e. \<not> kept succeeds e) (enumerate (length log) q)),
      log @ q)"
proof (induction q arbitrary: p log)
  case Nil
  show ?case by simp
next
  case (Cons item rest)
  show ?case
  proof (cases "succeeds (length log)")
    case True
    then show ?thesis by (simp add: Cons.IH kept_def)
  next
    case False
    then show ?thesis
      by (simp add: Cons.IH kept_def bump_def Let_def or_zero_def not_less)
  qed
qed





lemma pass_networkState:
  "networkState (processOfflineQueue succeeds w) = networkState w"
  by (cases "offlineQueue w = []") (simp_all add: processOfflineQueue_def process_items_closed)
















subsection \<open>Evaluation of concrete sessions\<close>

lemmas eval_defs = new_NetworkManager_def NetworkManager_addToOfflineQueue_def
  StorageManager_addToOfflineQueue_def processOfflineQueue_def onNetworkChange_settled_eq
  newNetworkState_def or_false_def connected_def disconnected_def always_throws_def always_returns_def
  returns_only_at_def
  make_id_def string_of_int_def js_or_def getItem_def setItem_def JSON_stringify_def
  or_unchanged_def removeFromOfflineQueue_def empty_store_def or_zero_def executions_def Let_def
  getOfflineQueue_def initialize_def restart_def session_def

lemmas system_defs = system_of_def view_def occur_all_def onNetworkChange_def
  start_processOfflineQueue_def resume_processOfflineQueue_def push_to_offlineQueue_def



lemma run_append: "run succeeds (es @ es') w = run succeeds es' (run succeeds es w)"
  by (induction es arbitrary: w) simp_all




section \<open>Network changes\<close>


lemma newNetworkState_connected:
  "isConnected (newNetworkState state) \<longleftrightarrow> ni_isConnected state = Some True"
  by (auto simp: newNetworkState_def or_false_def split: option.splits bool.splits)

lemma newNetworkState_reachable:
  "isInternetReachable (newNetworkState state) \<longleftrightarrow> ni_isInternetReachable state = Some True"
  by (auto simp: newNetworkState_def or_false_def split: option.splits bool.splits)

lemma onNetworkChange_settled_networkState:
  "networkState (onNetworkChange_settled succeeds state w) = newNetworkState state"
  by (simp add: onNetworkChange_settled_eq Let_def pass_networkState)

lemma onNetworkChange_m_networkState:
  "m_networkState (onNetworkChange state sys) = newNetworkState state"
  by (simp add: onNetworkChange_def start_processOfflineQueue_def Let_def)

lemma newNetworkState_record:
  "newNetworkState state =
     \<lparr>isConnected = (ni_isConnected state = Some True),
      isInternetReachable = (ni_isInternetReachable state = Some True),
      type = ni_type state, isWifiEnabled = ni_isWifiEnabled state\<rparr>"
  by (simp add: newNetworkState_def or_false_def split: option.splits bool.splits)

lemma occur_m_networkState:
  "\<not> is_report e \<Longrightarrow> m_networkState (occur e sys) = m_networkState sys"
  by (cases e) (simp_all add: push_to_offlineQueue_def resume_processOfflineQueue_def Let_def)

lemma occur_all_m_networkState:
  "\<not> list_ex is_report os \<Longrightarrow> m_networkState (occur_all os sys) = m_networkState sys"
  unfolding occur_all_def
  by (induction os arbitrary: sys) (simp_all add: occur_m_networkState)

lemma occur_all_append:
  "occur_all (os @ os') sys = occur_all os' (occur_all os sys)"
  by (simp add: occur_all_def)



text \<open>
  C8 (amended).  After a network change \<open>getCurrentState\<close> returns the state built from the
  report just observed: each flag is true exactly when the report has it true (a flag
  reported as null is stored as false), type and \<open>isWifiEnabled\<close> are those of the report.
  This holds right after the listener has run, after a pass that runs alone, and after any
  further occurrences that are not reports, whatever happened before.  \<open>isOnline\<close> holds
  exactly when both flags are true; \<open>isOffline\<close> is its negation.
\<close>

theorem current_state:
  "getCurrentState (view (onNetworkChange state sys)) =
      \<lparr>isConnected = (ni_isConnected state = Some True),
       isInternetReachable = (ni_isInternetReachable state = Some True),
       type = ni_type state, isWifiEnabled = ni_isWifiEnabled state\<rparr>
   \<and> (\<not> list_ex is_report os \<longrightarrow>
        getCurrentState (view (occur_all (os' @ Reported state # os) sys)) =
          \<lparr>isConnected = (ni_isConnected state = Some True),
           isInternetReachable = (ni_isInternetReachable state = Some True),
           type = ni_type state, isWifiEnabled = ni_isWifiEnabled state\<rparr>)
   \<and> getCurrentState (onNetworkChange_settled succeeds state w) =
      \<lparr>isConnected = (ni_isConnected state = Some True),
       isInternetReachable = (ni_isInternetReachable state = Some True),
       type = ni_type state, isWifiEnabled = ni_isWifiEnabled state\<rparr>
   \<and> getCurrentState (run succeeds (es @ [NetworkChange state]) w) =
      \<lparr>isConnected = (ni_isConnected state = Some True),
       isInternetReachable = (ni_isInternetReachable state = Some True),
       type = ni_type state, isWifiEnabled = ni_isWifiEnabled state\<rparr>
   \<and> (isOnline (view (onNetworkChange state sys)) \<longleftrightarrow>
        ni_isConnected state = Some True \<and> ni_isInternetReachable state = Some True)
   \<and> (isOnline (onNetworkChange_settled succeeds state w) \<longleftrightarrow>
        ni_isConnected state = Some True \<and> ni_isInternetReachable state = Some True)
   \<and> (isOnline w \<longleftrightarrow>
        isConnected (getCurrentState w) \<and> isInternetReachable (getCurrentState w))
   \<and> isOffline w = (\<not> isOnline w)"
proof (intro conjI impI)
  let ?stored = "\<lparr>isConnected = (ni_isConnected state = Some True),
       isInternetReachable = (ni_isInternetReachable state = Some True),
       type = ni_type state, isWifiEnabled = ni_isWifiEnabled state\<rparr>"
  have n: "newNetworkState state = ?stored" by (rule newNetworkState_record)
  have v: "getCurrentState (view s) = m_networkState s" for s
    by (simp add: getCurrentState_def view_def)
  show "getCurrentState (view (onNetworkChange state sys)) = ?stored"
    unfolding v onNetworkChange_m_networkState by (rule n)
  show "getCurrentState (onNetworkChange_settled succeeds state w) = ?stored"
    unfolding getCurrentState_def onNetworkChange_settled_networkState by (rule n)
  show "getCurrentState (run succeeds (es @ [NetworkChange state]) w) = ?stored"
    unfolding getCurrentState_def run_append run.simps step.simps
      onNetworkChange_settled_networkState by (rule n)
  show "isOnline (view (onNetworkChange state sys)) \<longleftrightarrow>
        ni_isConnected state = Some True \<and> ni_isInternetReachable state = Some True"
    by (simp add: isOnline_def view_def onNetworkChange_m_networkState newNetworkState_connected
        newNetworkState_reachable)
  show "isOnline (onNetworkChange_settled succeeds state w) \<longleftrightarrow>
        ni_isConnected state = Some True \<and> ni_isInternetReachable state = Some True"
    by (simp add: isOnline_def onNetworkChange_settled_networkState newNetworkState_connected
        newNetworkState_reachable)
  show "isOnline w \<longleftrightarrow>
        isConnected (getCurrentState w) \<and> isInternetReachable (getCurrentState w)"
    by (simp add: isOnline_def getCurrentState_def)
  show "isOffline w = (\<not> isOnline w)" by (simp add: isOffline_def)
  assume "\<not> list_ex is_report os"
  then have "m_networkState (occur_all (os' @ Reported state # os) sys) =
      m_networkState (onNetworkChange state (occur_all os' sys))"
    unfolding occur_all_append
    using occur_all_m_networkState [of os "occur (Reported state) (occur_all os' sys)"]
    by (simp add: occur_all_def)
  then show "getCurrentState (view (occur_all (os' @ Reported state # os) sys)) = ?stored"
    unfolding v onNetworkChange_m_networkState by (simp only: n)
qed

theorem current_state_witness:
  "getCurrentState (view (occur_all
      [Enqueued ''a'' Null \<lparr>now_id = 1, random = ''0.1'', now_ts = 1\<rparr>
         \<lparr>now_id = 1, random = ''0.5'', now_ts = 1\<rparr>,
       Reported disconnected, Reported connected,
       Enqueued ''b'' Null \<lparr>now_id = 2, random = ''0.1'', now_ts = 2\<rparr>
         \<lparr>now_id = 2, random = ''0.5'', now_ts = 2\<rparr>,
       Settled 0 True, Settled 0 False]
      (system_of (new_NetworkManager empty_store))))
     = \<lparr>isConnected = True, isInternetReachable = True, type = ''wifi'',
        isWifiEnabled = Some True\<rparr>
   \<and> getCurrentState (run always_returns [NetworkChange disconnected, NetworkChange connected]
      (new_NetworkManager empty_store))
     = \<lparr>isConnected = True, isInternetReachable = True, type = ''wifi'',
        isWifiEnabled = Some True\<rparr>
   \<and> getCurrentState (view (onNetworkChange
        \<lparr>ni_isConnected = None, ni_isInternetReachable = Some True, ni_type = ''unknown'',
         ni_isWifiEnabled = None\<rparr>
        (system_of (new_NetworkManager empty_store))))
     = \<lparr>isConnected = False, isInternetReachable = True, type = ''unknown'',
        isWifiEnabled = None\<rparr>
   \<and> isOnline (onNetworkChange_settled always_returns connected (new_NetworkManager empty_store))
   \<and> \<not> isOffline (onNetworkChange_settled always_returns connected (new_NetworkManager empty_store))
   \<and> isOffline (onNetworkChange_settled always_returns disconnected (new_NetworkManager empty_store))
   \<and> isOnline (view (onNetworkChange connected (system_of (new_NetworkManager empty_store))))"
proof -
  let ?init = "new_NetworkManager empty_store"
  let ?before = "[Enqueued ''a'' Null \<lparr>now_id = 1, random = ''0.1'', now_ts = 1\<rparr>
         \<lparr>now_id = 1, random = ''0.5'', now_ts = 1\<rparr>, Reported disconnected]"
  let ?after = "[Enqueued ''b'' Null \<lparr>now_id = 2, random = ''0.1'', now_ts = 2\<rparr>
         \<lparr>now_id = 2, random = ''0.5'', now_ts = 2\<rparr>, Settled 0 True, Settled 0 False]"
  let ?null = "\<lparr>ni_isConnected = None, ni_isInternetReachable = Some True,
      ni_type = ''unknown'', ni_isWifiEnabled = None\<rparr>"
  have c: "ni_isConnected connected = Some True \<and> ni_isInternetReachable connected = Some True"
    and t: "ni_type connected = ''wifi''" "ni_isWifiEnabled connected = Some True"
    by (simp_all add: connected_def)
  have nd: "\<not> (ni_isConnected disconnected = Some True
        \<and> ni_isInternetReachable disconnected = Some True)"
    by (simp add: disconnected_def)
  have nr: "\<not> list_ex is_report ?after" by simp
  have stored: "\<lparr>isConnected = (ni_isConnected connected = Some True),
       isInternetReachable = (ni_isInternetReachable connected = Some True),
       type = ni_type connected, isWifiEnabled = ni_isWifiEnabled connected\<rparr>
     = \<lparr>isConnected = True, isInternetReachable = True, type = ''wifi'',
        isWifiEnabled = Some True\<rparr>"
    by (simp add: connected_def)
  have stored_null: "\<lparr>isConnected = (ni_isConnected ?null = Some True),
       isInternetReachable = (ni_isInternetReachable ?null = Some True),
       type = ni_type ?null, isWifiEnabled = ni_isWifiEnabled ?null\<rparr>
     = \<lparr>isConnected = False, isInternetReachable = True, type = ''unknown'',
        isWifiEnabled = None\<rparr>"
    by simp
  note T = current_state [where state = connected and sys = "system_of ?init" and os = ?after
      and os' = ?before and succeeds = always_returns and w = ?init
      and es = "[NetworkChange disconnected]"]
  from T nr have "getCurrentState (view (occur_all (?before @ Reported connected # ?after)
      (system_of ?init))) =
      \<lparr>isConnected = (ni_isConnected connected = Some True),
       isInternetReachable = (ni_isInternetReachable connected = Some True),
       type = ni_type connected, isWifiEnabled = ni_isWifiEnabled connected\<rparr>"
    by blast
  then have 1: "getCurrentState (view (occur_all (?before @ Reported connected # ?after)
      (system_of ?init))) =
      \<lparr>isConnected = True, isInternetReachable = True, type = ''wifi'',
        isWifiEnabled = Some True\<rparr>"
    by (simp only: stored)
  from T have "getCurrentState (run always_returns
        ([NetworkChange disconnected] @ [NetworkChange connected]) ?init) =
      \<lparr>isConnected = (ni_isConnected connected = Some True),
       isInternetReachable = (ni_isInternetReachable connected = Some True),
       type = ni_type connected, isWifiEnabled = ni_isWifiEnabled connected\<rparr>"
    by blast
  then have 2: "getCurrentState (run always_returns
        ([NetworkChange disconnected] @ [NetworkChange connected]) ?init) =
      \<lparr>isConnected = True, isInternetReachable = True, type = ''wifi'',
        isWifiEnabled = Some True\<rparr>"
    by (simp only: stored)
  from current_state [where state = ?null and sys = "system_of ?init"]
  have "getCurrentState (view (onNetworkChange ?null (system_of ?init))) =
      \<lparr>isConnected = (ni_isConnected ?null = Some True),
       isInternetReachable = (ni_isInternetReachable ?null = Some True),
       type = ni_type ?null, isWifiEnabled = ni_isWifiEnabled ?null\<rparr>"
    by blast
  then have 3: "getCurrentState (view (onNetworkChange ?null (system_of ?init))) =
      \<lparr>isConnected = False, isInternetReachable = True, type = ''unknown'',
        isWifiEnabled = None\<rparr>"
    by (simp only: stored_null)
  from T c have 4: "isOnline (onNetworkChange_settled always_returns connected ?init)" by blast
  from current_state [where w = "onNetworkChange_settled always_returns connected ?init"] 4
  have 5: "\<not> isOffline (onNetworkChange_settled always_returns connected ?init)" by blast
  from current_state [where state = disconnected and succeeds = always_returns and w = ?init] nd
  have "\<not> isOnline (onNetworkChange_settled always_returns disconnected ?init)" by blast
  with current_state [where w = "onNetworkChange_settled always_returns disconnected ?init"]
  have 6: "isOffline (onNetworkChange_settled always_returns disconnected ?init)" by blast
  from T c have 7: "isOnline (view (onNetworkChange connected (system_of ?init)))" by blast
  show ?thesis using 1 2 3 4 5 6 7 by simp
qed

text \<open>
  C8 as stated fails on a report with a null flag: NetInfo reports \<open>isInternetReachable\<close>
  as null while it does not know, and the listener stores \<^verbatim>\<open>state.isInternetReachable || false\<close>,
  so the state returned afterwards has the flag false, which the report does not.
\<close>

theorem current_state_counterexample:
  "ni_isInternetReachable
      \<lparr>ni_isConnected = Some True, ni_isInternetReachable = None, ni_type = ''cellular'',
       ni_isWifiEnabled = None\<rparr> = None
   \<and> getCurrentState (view (onNetworkChange
        \<lparr>ni_isConnected = Some True, ni_isInternetReachable = None, ni_type = ''cellular'',
         ni_isWifiEnabled = None\<rparr>
        (system_of (new_NetworkManager empty_store))))
     = \<lparr>isConnected = True, isInternetReachable = False, type = ''cellular'',
        isWifiEnabled = None\<rparr>
   \<and> Some (isInternetReachable (getCurrentState (view (onNetworkChange
        \<lparr>ni_isConnected = Some True, ni_isInternetReachable = None, ni_type = ''cellular'',
         ni_isWifiEnabled = None\<rparr>
        (system_of (new_NetworkManager empty_store))))))
     \<noteq> ni_isInternetReachable
          \<lparr>ni_isConnected = Some True, ni_isInternetReachable = None, ni_type = ''cellular'',
           ni_isWifiEnabled = None\<rparr>"
  by (simp add: system_defs eval_defs getCurrentState_def)

text \<open>
  C5 (the code at the failing input).  An action is enqueued while offline and replayed
  with success on reconnect.  The in-memory item has the identifier \<open>1000_0.25\<close>, the
  persisted one \<open>1000_0.75\<close> (drawn separately), so \<open>removeFromOfflineQueue\<close> removes
  nothing: the action is still persisted, and pending again after a restart.
\<close>

theorem replayed_action_still_persisted:
  "executed (run always_returns
      [Enqueue ''send'' (Str ''hi'') \<lparr>now_id = 1000, random = ''0.25'', now_ts = 1000\<rparr>
         \<lparr>now_id = 1000, random = ''0.75'', now_ts = 1000\<rparr>,
       NetworkChange connected]
      (new_NetworkManager empty_store))
     = [\<lparr>item_id = ''1000_0.25'', action = ''send'', data = Str ''hi'', timestamp = 1000,
         retryCount = Some 0\<rparr>]
   \<and> offlineQueue (run always_returns
      [Enqueue ''send'' (Str ''hi'') \<lparr>now_id = 1000, random = ''0.25'', now_ts = 1000\<rparr>
         \<lparr>now_id = 1000, random = ''0.75'', now_ts = 1000\<rparr>,
       NetworkChange connected]
      (new_NetworkManager empty_store)) = []
   \<and> getOfflineQueue (storage (run always_returns
      [Enqueue ''send'' (Str ''hi'') \<lparr>now_id = 1000, random = ''0.25'', now_ts = 1000\<rparr>
         \<lparr>now_id = 1000, random = ''0.75'', now_ts = 1000\<rparr>,
       NetworkChange connected]
      (new_NetworkManager empty_store)))
     = Arr [Obj [(''id'', Str ''1000_0.75''), (''action'', Str ''send''), (''data'', Str ''hi''),
                 (''timestamp'', Num 1000)]]
   \<and> map_option offlineQueue (restart (run always_returns
      [Enqueue ''send'' (Str ''hi'') \<lparr>now_id = 1000, random = ''0.25'', now_ts = 1000\<rparr>
         \<lparr>now_id = 1000, random = ''0.75'', now_ts = 1000\<rparr>,
       NetworkChange connected]
      (new_NetworkManager empty_store)))
     = Some [\<lparr>item_id = ''1000_0.75'', action = ''send'', data = Str ''hi'', timestamp = 1000,
              retryCount = None\<rparr>]"
  by (simp add: eval_defs)

section \<open>The request wrapper\<close>

lemma cached_lookup_given:
  "cacheKey = Some k \<Longrightarrow> k \<noteq> [] \<Longrightarrow> cached_lookup cacheKey now s = getCache k now s"
  by (simp add: cached_lookup_def)

lemma cached_lookup_not_given:
  "\<not> key_given cacheKey \<Longrightarrow> cached_lookup cacheKey now s = (Undefined, s)"
  by (auto simp: cached_lookup_def key_given_def split: option.splits)

lemma makeRequest_offline:
  assumes "isOffline w"
  shows "makeRequest requestFn fallbackData cacheKey now now1 now2 w =
     \<lparr>returned =
        (if truthy (fst (cached_lookup cacheKey now (storage w)))
         then Inr (fst (cached_lookup cacheKey now (storage w)))
         else if fallbackData \<noteq> Undefined then Inr fallbackData
         else Inl (Error ''No internet connection and no cached data available'')),
      store_after = snd (cached_lookup cacheKey now (storage w)),
      request_calls = 0\<rparr>"
  using assms by (simp add: makeRequest_def split: prod.splits)

lemma request_failed_eq:
  "request_failed err cacheKey now s =
     \<lparr>returned =
        (if truthy (fst (cached_lookup cacheKey now s))
         then Inr (fst (cached_lookup cacheKey now s)) else Inl err),
      store_after = snd (cached_lookup cacheKey now s),
      request_calls = 1\<rparr>"
  by (simp add: request_failed_def split: prod.splits)

lemma makeRequest_online_ok:
  assumes "\<not> isOffline w" "requestFn = Inr result"
  shows "makeRequest requestFn fallbackData cacheKey now now1 now2 w =
     \<lparr>returned = Inr result,
      store_after =
        (case cacheKey of
           None \<Rightarrow> storage w
         | Some k \<Rightarrow>
             if k \<noteq> []
             then (storage w)(''cache_'' @ k \<mapsto>
               serialize (Obj [(''data'', result), (''timestamp'', Num now1),
                               (''expiresAt'', Num (now2 + 30 * 60 * 1000))]))
             else storage w),
      request_calls = 1\<rparr>"
  using assms by (simp add: makeRequest_def setCache_Inr split: option.splits)

lemma makeRequest_online_failed:
  assumes "\<not> isOffline w" "requestFn = Inl err"
  shows "makeRequest requestFn fallbackData cacheKey now now1 now2 w =
     request_failed err cacheKey now (storage w)"
  using assms by (simp add: makeRequest_def)

text \<open>
  C9 (amended).  \<open>cached_lookup\<close> is the cached value \<open>getCache\<close> returns when a non-empty
  \<open>cacheKey\<close> is given, and \<open>undefined\<close> otherwise.  Offline, \<open>makeRequest\<close> never calls
  \<open>requestFn\<close>: it returns the looked-up value when that is truthy, otherwise
  \<open>fallbackData\<close> when provided, otherwise it throws 'No internet connection and no cached
  data available'.  Online it calls \<open>requestFn\<close> once; a result is returned and, under a
  non-empty \<open>cacheKey\<close>, stored by \<open>setCache\<close> with an expiry 30 minutes after the clock
  reading (until then \<open>getCache\<close> returns it); when the request throws, the looked-up value
  is returned when it is truthy, and the error of the request is thrown again otherwise.
\<close>

theorem makeRequest_paths:
  "(isOffline w \<longrightarrow>
      request_calls (makeRequest requestFn fallbackData cacheKey now now1 now2 w) = 0
      \<and> returned (makeRequest requestFn fallbackData cacheKey now now1 now2 w) =
          (if truthy (fst (cached_lookup cacheKey now (storage w)))
           then Inr (fst (cached_lookup cacheKey now (storage w)))
           else if fallbackData \<noteq> Undefined then Inr fallbackData
           else Inl (Error ''No internet connection and no cached data available'')))
   \<and> (\<not> isOffline w \<and> requestFn = Inr result \<longrightarrow>
      request_calls (makeRequest requestFn fallbackData cacheKey now now1 now2 w) = 1
      \<and> returned (makeRequest requestFn fallbackData cacheKey now now1 now2 w) = Inr result
      \<and> (\<not> key_given cacheKey \<longrightarrow>
           store_after (makeRequest requestFn fallbackData cacheKey now now1 now2 w) = storage w)
      \<and> (cacheKey = Some k \<and> k \<noteq> [] \<longrightarrow>
           setCache k result (Some 30) now1 now2 (storage w) =
             Inr (store_after (makeRequest requestFn fallbackData cacheKey now now1 now2 w))
           \<and> js_prop (getItem (''cache_'' @ k)
                 (store_after (makeRequest requestFn fallbackData cacheKey now now1 now2 w)))
                ''expiresAt'' = Num (now2 + 30 * 60 * 1000)
           \<and> (serializable result \<and> later \<le> now2 + 30 * 60 * 1000 \<longrightarrow>
                fst (getCache k later
                  (store_after (makeRequest requestFn fallbackData cacheKey now now1 now2 w)))
                = result)))
   \<and> (\<not> isOffline w \<and> requestFn = Inl err \<longrightarrow>
      request_calls (makeRequest requestFn fallbackData cacheKey now now1 now2 w) = 1
      \<and> returned (makeRequest requestFn fallbackData cacheKey now now1 now2 w) =
          (if truthy (fst (cached_lookup cacheKey now (storage w)))
           then Inr (fst (cached_lookup cacheKey now (storage w)))
           else Inl err))
   \<and> (cacheKey = Some k \<and> k \<noteq> [] \<longrightarrow>
        cached_lookup cacheKey now (storage w) = getCache k now (storage w))
   \<and> (\<not> key_given cacheKey \<longrightarrow>
        cached_lookup cacheKey now (storage w) = (Undefined, storage w))"
proof (intro conjI impI)
  assume off: "isOffline w"
  show "request_calls (makeRequest requestFn fallbackData cacheKey now now1 now2 w) = 0"
    by (simp add: makeRequest_offline [OF off])
  show "returned (makeRequest requestFn fallbackData cacheKey now now1 now2 w) =
          (if truthy (fst (cached_lookup cacheKey now (storage w)))
           then Inr (fst (cached_lookup cacheKey now (storage w)))
           else if fallbackData \<noteq> Undefined then Inr fallbackData
           else Inl (Error ''No internet connection and no cached data available''))"
    by (simp add: makeRequest_offline [OF off])
next
  assume a: "\<not> isOffline w \<and> requestFn = Inr result"
  then have on: "\<not> isOffline w" and ok: "requestFn = Inr result" by simp_all
  note eq = makeRequest_online_ok [OF on ok, of fallbackData cacheKey now now1 now2]
  show "request_calls (makeRequest requestFn fallbackData cacheKey now now1 now2 w) = 1"
    by (simp add: eq)
  show "returned (makeRequest requestFn fallbackData cacheKey now now1 now2 w) = Inr result"
    by (simp add: eq)
  {
    assume "\<not> key_given cacheKey"
    then show "store_after (makeRequest requestFn fallbackData cacheKey now now1 now2 w) = storage w"
      by (auto simp: eq key_given_def split: option.splits)
  }
  {
    assume k: "cacheKey = Some k \<and> k \<noteq> []"
    let ?s' = "store_after (makeRequest requestFn fallbackData cacheKey now now1 now2 w)"
    have st: "?s' = (storage w)(''cache_'' @ k \<mapsto>
               serialize (Obj [(''data'', result), (''timestamp'', Num now1),
                               (''expiresAt'', Num (now2 + 30 * 60 * 1000))]))"
      using k unfolding eq by simp
    show set: "setCache k result (Some 30) now1 now2 (storage w) = Inr ?s'"
      unfolding st by (simp add: setCache_Inr)
    show ex: "js_prop (getItem (''cache_'' @ k) ?s') ''expiresAt'' = Num (now2 + 30 * 60 * 1000)"
      using expiresAt_after_setCache [OF set] by simp
    {
      assume b: "serializable result \<and> later \<le> now2 + 30 * 60 * 1000"
      then have item: "getItem (''cache_'' @ k) ?s' =
          Obj [(''data'', result), (''timestamp'', Num now1),
               (''expiresAt'', Num (now2 + 30 * 60 * 1000))]"
        using getItem_after_setCache [OF set] by simp
      have t: "truthy (getItem (''cache_'' @ k) ?s')"
        and d: "js_prop (getItem (''cache_'' @ k) ?s') ''data'' = result"
        unfolding item by simp_all
      show "fst (getCache k later ?s') = result"
        using b t d ex by (simp add: getCache_def Let_def)
    }
  }
next
  assume a: "\<not> isOffline w \<and> requestFn = Inl err"
  then have eq: "makeRequest requestFn fallbackData cacheKey now now1 now2 w =
     request_failed err cacheKey now (storage w)"
    by (simp add: makeRequest_online_failed)
  show "request_calls (makeRequest requestFn fallbackData cacheKey now now1 now2 w) = 1"
    by (simp add: eq request_failed_eq)
  show "returned (makeRequest requestFn fallbackData cacheKey now now1 now2 w) =
          (if truthy (fst (cached_lookup cacheKey now (storage w)))
           then Inr (fst (cached_lookup cacheKey now (storage w)))
           else Inl err)"
    by (simp add: eq request_failed_eq)
next
  assume "cacheKey = Some k \<and> k \<noteq> []"
  then show "cached_lookup cacheKey now (storage w) = getCache k now (storage w)"
    by (simp add: cached_lookup_given)
next
  assume "\<not> key_given cacheKey"
  then show "cached_lookup cacheKey now (storage w) = (Undefined, storage w)"
    by (rule cached_lookup_not_given)
qed


theorem makeRequest_paths_witness:
  "isOffline (new_NetworkManager (empty_store(''cache_feed'' \<mapsto>
       JObj [(''data'', JStr ''cached''), (''timestamp'', JNum 0), (''expiresAt'', JNum 1800000)])))
   \<and> returned (makeRequest (Inr (Str ''fresh'')) Undefined (Some ''feed'') 1000 1000 1000
        (new_NetworkManager (empty_store(''cache_feed'' \<mapsto>
           JObj [(''data'', JStr ''cached''), (''timestamp'', JNum 0),
                 (''expiresAt'', JNum 1800000)]))))
       = Inr (Str ''cached'')
   \<and> request_calls (makeRequest (Inr (Str ''fresh'')) Undefined (Some ''feed'') 1000 1000 1000
        (new_NetworkManager (empty_store(''cache_feed'' \<mapsto>
           JObj [(''data'', JStr ''cached''), (''timestamp'', JNum 0),
                 (''expiresAt'', JNum 1800000)]))))
       = 0
   \<and> returned (makeRequest (Inr (Str ''fresh'')) Undefined (Some ''feed'') 1000 1000 1000
        (new_NetworkManager empty_store))
       = Inl (Error ''No internet connection and no cached data available'')
   \<and> \<not> isOffline (onNetworkChange_settled always_returns connected (new_NetworkManager empty_store))
   \<and> returned (makeRequest (Inr (Str ''fresh'')) Undefined (Some ''feed'') 1000 1000 1000
        (onNetworkChange_settled always_returns connected (new_NetworkManager empty_store)))
       = Inr (Str ''fresh'')
   \<and> request_calls (makeRequest (Inr (Str ''fresh'')) Undefined (Some ''feed'') 1000 1000 1000
        (onNetworkChange_settled always_returns connected (new_NetworkManager empty_store)))
       = 1
   \<and> js_prop (getItem ''cache_feed''
        (store_after (makeRequest (Inr (Str ''fresh'')) Undefined (Some ''feed'') 1000 1000 1000
           (onNetworkChange_settled always_returns connected (new_NetworkManager empty_store)))))
        ''expiresAt'' = Num 1801000
   \<and> returned (makeRequest (Inl (Error ''boom'')) Undefined (Some ''feed'') 1000 1000 1000
        (onNetworkChange_settled always_returns connected (new_NetworkManager empty_store)))
       = Inl (Error ''boom'')"
proof -
  let ?st = "empty_store(''cache_feed'' \<mapsto>
       JObj [(''data'', JStr ''cached''), (''timestamp'', JNum 0), (''expiresAt'', JNum 1800000)])"
  let ?off = "new_NetworkManager ?st"
  let ?off' = "new_NetworkManager empty_store"
  let ?on = "onNetworkChange_settled always_returns connected (new_NetworkManager empty_store)"
  have off: "isOffline ?off" and off': "isOffline ?off'"
    by (simp_all add: isOffline_def isOnline_def new_NetworkManager_def)
  have on: "\<not> isOffline ?on"
    by (simp add: isOffline_def isOnline_def eval_defs)
  have son: "storage ?on = empty_store" by (simp add: eval_defs del: empty_store_def)
  have key: "Some ''feed'' = Some ''feed'' \<and> ''feed'' \<noteq> []" by simp
  have hit: "getCache ''feed'' 1000 (storage ?off) = (Str ''cached'', ?st)"
    by (simp add: getCache_def getItem_def new_NetworkManager_def)
  have miss: "getCache ''feed'' 1000 (storage ?off') = (Null, empty_store)"
    and miss': "getCache ''feed'' 1000 (storage ?on) = (Null, empty_store)"
    unfolding son by (simp_all add: getCache_def getItem_def new_NetworkManager_def empty_store_def)
  note A = makeRequest_paths [of ?off "Inr (Str ''fresh'')" Undefined "Some ''feed''" 1000 1000 1000
      _ "''feed''"]
  from A off key have la: "cached_lookup (Some ''feed'') 1000 (storage ?off) = getCache ''feed'' 1000 (storage ?off)"
    by blast
  from A off have "returned (makeRequest (Inr (Str ''fresh'')) Undefined (Some ''feed'') 1000 1000 1000 ?off) =
          (if truthy (fst (cached_lookup (Some ''feed'') 1000 (storage ?off)))
           then Inr (fst (cached_lookup (Some ''feed'') 1000 (storage ?off)))
           else if Undefined \<noteq> Undefined then Inr Undefined
           else Inl (Error ''No internet connection and no cached data available''))"
    and 2: "request_calls (makeRequest (Inr (Str ''fresh'')) Undefined (Some ''feed'') 1000 1000 1000 ?off) = 0"
    by blast+
  then have 1: "returned (makeRequest (Inr (Str ''fresh'')) Undefined (Some ''feed'') 1000 1000 1000 ?off) =
      Inr (Str ''cached'')"
    unfolding la hit by simp
  note B = makeRequest_paths [of ?off' "Inr (Str ''fresh'')" Undefined "Some ''feed''" 1000 1000 1000
      _ "''feed''"]
  from B off' key have lb: "cached_lookup (Some ''feed'') 1000 (storage ?off') = getCache ''feed'' 1000 (storage ?off')"
    by blast
  from B off' have "returned (makeRequest (Inr (Str ''fresh'')) Undefined (Some ''feed'') 1000 1000 1000 ?off') =
          (if truthy (fst (cached_lookup (Some ''feed'') 1000 (storage ?off')))
           then Inr (fst (cached_lookup (Some ''feed'') 1000 (storage ?off')))
           else if Undefined \<noteq> Undefined then Inr Undefined
           else Inl (Error ''No internet connection and no cached data available''))"
    by blast
  then have 3: "returned (makeRequest (Inr (Str ''fresh'')) Undefined (Some ''feed'') 1000 1000 1000 ?off') =
      Inl (Error ''No internet connection and no cached data available'')"
    unfolding lb miss by simp
  note C = makeRequest_paths [of ?on "Inr (Str ''fresh'')" Undefined "Some ''feed''" 1000 1000 1000
      "Str ''fresh''" "''feed''"]
  from C on key have 4: "returned (makeRequest (Inr (Str ''fresh'')) Undefined (Some ''feed'') 1000 1000 1000 ?on)
       = Inr (Str ''fresh'')"
    and 5: "request_calls (makeRequest (Inr (Str ''fresh'')) Undefined (Some ''feed'') 1000 1000 1000 ?on) = 1"
    and "js_prop (getItem (''cache_'' @ ''feed'')
        (store_after (makeRequest (Inr (Str ''fresh'')) Undefined (Some ''feed'') 1000 1000 1000 ?on)))
        ''expiresAt'' = Num (1000 + 30 * 60 * 1000)"
    by blast+
  then have 6: "js_prop (getItem ''cache_feed''
        (store_after (makeRequest (Inr (Str ''fresh'')) Undefined (Some ''feed'') 1000 1000 1000 ?on)))
        ''expiresAt'' = Num 1801000"
    by simp
  note D = makeRequest_paths [of ?on "Inl (Error ''boom'')" Undefined "Some ''feed''" 1000 1000 1000
      _ "''feed''" _ "Error ''boom''"]
  from D on key have ld: "cached_lookup (Some ''feed'') 1000 (storage ?on) = getCache ''feed'' 1000 (storage ?on)"
    by blast
  from D on have "returned (makeRequest (Inl (Error ''boom'')) Undefined (Some ''feed'') 1000 1000 1000 ?on) =
          (if truthy (fst (cached_lookup (Some ''feed'') 1000 (storage ?on)))
           then Inr (fst (cached_lookup (Some ''feed'') 1000 (storage ?on)))
           else Inl (Error ''boom''))"
    by blast
  then have 7: "returned (makeRequest (Inl (Error ''boom'')) Undefined (Some ''feed'') 1000 1000 1000 ?on) =
      Inl (Error ''boom'')"
    unfolding ld miss' by simp
  show ?thesis using off 1 2 3 on 4 5 6 7 by blast
qed

text \<open>
  C9 as stated fails for a cached value that is falsy.  An online request caches the
  result 0 under \<open>unread\<close>; offline, before the entry expires, \<open>getCache\<close> still returns 0,
  yet \<open>makeRequest\<close> returns the fallback, or throws when there is none.  It fails as well
  for the empty \<open>cacheKey\<close>, which is never looked up.
\<close>

theorem makeRequest_paths_counterexample:
  "store_after (makeRequest (Inr (Num 0)) Undefined (Some ''unread'') 1000 1000 1000
      (onNetworkChange_settled always_returns connected (new_NetworkManager empty_store)))
     = empty_store(''cache_unread'' \<mapsto>
         JObj [(''data'', JNum 0), (''timestamp'', JNum 1000), (''expiresAt'', JNum 1801000)])
   \<and> isOffline (new_NetworkManager (empty_store(''cache_unread'' \<mapsto>
         JObj [(''data'', JNum 0), (''timestamp'', JNum 1000), (''expiresAt'', JNum 1801000)])))
   \<and> getCache ''unread'' 2000 (empty_store(''cache_unread'' \<mapsto>
         JObj [(''data'', JNum 0), (''timestamp'', JNum 1000), (''expiresAt'', JNum 1801000)]))
       = (Num 0, empty_store(''cache_unread'' \<mapsto>
         JObj [(''data'', JNum 0), (''timestamp'', JNum 1000), (''expiresAt'', JNum 1801000)]))
   \<and> returned (makeRequest (Inr (Num 7)) (Str ''fallback'') (Some ''unread'') 2000 2000 2000
        (new_NetworkManager (empty_store(''cache_unread'' \<mapsto>
           JObj [(''data'', JNum 0), (''timestamp'', JNum 1000), (''expiresAt'', JNum 1801000)]))))
       = Inr (Str ''fallback'')
   \<and> returned (makeRequest (Inr (Num 7)) Undefined (Some ''unread'') 2000 2000 2000
        (new_NetworkManager (empty_store(''cache_unread'' \<mapsto>
           JObj [(''data'', JNum 0), (''timestamp'', JNum 1000), (''expiresAt'', JNum 1801000)]))))
       = Inl (Error ''No internet connection and no cached data available'')
   \<and> getCache [] 2000 (empty_store(''cache_'' \<mapsto>
         JObj [(''data'', JStr ''x''), (''timestamp'', JNum 1000)]))
       = (Str ''x'', empty_store(''cache_'' \<mapsto>
         JObj [(''data'', JStr ''x''), (''timestamp'', JNum 1000)]))
   \<and> returned (makeRequest (Inr (Num 7)) (Str ''fallback'') (Some []) 2000 2000 2000
        (new_NetworkManager (empty_store(''cache_'' \<mapsto>
           JObj [(''data'', JStr ''x''), (''timestamp'', JNum 1000)]))))
       = Inr (Str ''fallback'')"
  by (simp add: makeRequest_def cached_lookup_def getCache_def getItem_def setCache_def setItem_def
      JSON_stringify_def isOffline_def isOnline_def new_NetworkManager_def onNetworkChange_settled_eq
      newNetworkState_def connected_def or_false_def processOfflineQueue_def Let_def)

end
